theory Spec2Isabelle
  imports Complex_Main "HOL-Library.Log_Nat"
begin

section \<open>Go runtime notions used by the service\<close>

text \<open>
  The service is written in Go. Its \<^verbatim>\<open>int\<close> is the 64-bit signed integer of the platforms it
  is built for; an increment wraps around. A \<^verbatim>\<open>time.Duration\<close> is a number of nanoseconds
  (int64); a \<^verbatim>\<open>time.Time\<close> is read here as the number of nanoseconds since the zero Time.
\<close>

definition wrap_int :: "int \<Rightarrow> int" where
  "wrap_int x = (x + 2 ^ 63) mod 2 ^ 64 - 2 ^ 63"

type_synonym Duration = int
type_synonym Time = int

definition maxDuration :: Duration where
  "maxDuration = 2 ^ 63 - 1"

definition minDuration :: Duration where
  "minDuration = - (2 ^ 63)"

text \<open>
  \<^verbatim>\<open>time.Since(t)\<close> is \<^verbatim>\<open>time.Now().Sub(t)\<close>; the first argument is the clock reading
  at the call. \<^verbatim>\<open>Sub\<close> saturates at the least and greatest Duration.
\<close>

definition Since :: "Time \<Rightarrow> Time \<Rightarrow> Duration" where
  "Since now t =
     (if now - t > maxDuration then maxDuration
      else if now - t < minDuration then minDuration
      else now - t)"

text \<open>Run-time panics of channel operations and of \<^verbatim>\<open>make\<close>.\<close>

datatype go_panic =
    SendOnClosedChannel
  | CloseOfClosedChannel
  | MakeChanSizeOutOfRange
  | MakeSliceCapOutOfRange

text \<open>
  A buffered channel: the values waiting in it (oldest first), its capacity, and whether it
  has been closed. The operations are those of one goroutine at a time; no other goroutine
  is parked in a receive on the channel while a send is tried.
\<close>

record 'a chan =
  chan_buf :: "'a list"
  chan_cap :: nat
  chan_closed :: bool

text \<open>\<^verbatim>\<open>make(chan T, n)\<close> panics for a negative size.\<close>

definition make_chan :: "int \<Rightarrow> go_panic + 'a chan" where
  "make_chan n =
     (if n < 0 then Inl MakeChanSizeOutOfRange
      else Inr \<lparr>chan_buf = [], chan_cap = nat n, chan_closed = False\<rparr>)"

text \<open>
  \<^verbatim>\<open>select { case c <- v: ... default: ... }\<close>: a send on a closed channel can always
  proceed, and proceeds by panicking; on an open channel the send proceeds when the buffer has
  room; otherwise the default case is taken. The boolean tells whether the send case ran.
\<close>

definition select_send :: "'a chan \<Rightarrow> 'a \<Rightarrow> go_panic + (bool \<times> 'a chan)" where
  "select_send c v =
     (if chan_closed c then Inl SendOnClosedChannel
      else if length (chan_buf c) < chan_cap c then Inr (True, c\<lparr>chan_buf := chan_buf c @ [v]\<rparr>)
      else Inr (False, c))"

text \<open>
  \<^verbatim>\<open>v, ok := <-c\<close>: a buffered value is taken, oldest first, also after the channel was
  closed; a closed and drained channel yields the zero value and \<^verbatim>\<open>ok = false\<close>; an open,
  empty channel blocks the caller.
\<close>

datatype 'a recv = Received 'a "'a chan" | ClosedAndDrained | Blocks

definition chan_recv :: "'a chan \<Rightarrow> 'a recv" where
  "chan_recv c =
     (case chan_buf c of
        v # vs \<Rightarrow> Received v (c\<lparr>chan_buf := vs\<rparr>)
      | [] \<Rightarrow> if chan_closed c then ClosedAndDrained else Blocks)"

definition chan_close :: "'a chan \<Rightarrow> go_panic + 'a chan" where
  "chan_close c =
     (if chan_closed c then Inl CloseOfClosedChannel else Inr (c\<lparr>chan_closed := True\<rparr>))"

section \<open>Models and errors\<close>

text \<open>
  \<^verbatim>\<open>models.ProductEvent\<close> and \<^verbatim>\<open>models.Product\<close>. The price is a float64 that the
  service only copies; it is kept as a real number.
\<close>

record ProductEvent =
  ProductID :: string
  Price :: real
  Stock :: int

record Product =
  ID :: string
  Price :: real
  Stock :: int

text \<open>
  The error values of the service, named by what they say:
  \<^item> \<open>QueueFull\<close>: \<^verbatim>\<open>"queue is full"\<close>
  \<^item> \<open>QueueClosed\<close>: \<^verbatim>\<open>"queue is closed"\<close> (declared as \<^verbatim>\<open>ErrQueueClosed\<close>)
  \<^item> \<open>CircuitOpen\<close>: \<^verbatim>\<open>"circuit breaker is open"\<close>
  \<^item> \<open>BatchProcessorFull\<close>: \<^verbatim>\<open>"batch processor is full"\<close>
  \<^item> \<open>OperationFailed n\<close>: \<^verbatim>\<open>"operation failed after n attempts"\<close>
  \<^item> \<open>AttemptFailed n\<close>: \<^verbatim>\<open>"attempt n failed"\<close>
  \<^item> \<open>OtherError s\<close>: an error with message \<open>s\<close> made by a caller's operation.
  A function returning Go's \<^verbatim>\<open>error\<close> returns \<open>error option\<close>; \<open>None\<close> is \<^verbatim>\<open>nil\<close>.
\<close>

datatype error =
    QueueFull
  | QueueClosed
  | CircuitOpen
  | BatchProcessorFull
  | OperationFailed int
  | AttemptFailed int
  | OtherError string

section \<open>The bounded event queue\<close>

record InMemoryEventQueue =
  events :: "ProductEvent chan"

definition NewInMemoryEventQueue :: "int \<Rightarrow> go_panic + InMemoryEventQueue" where
  "NewInMemoryEventQueue bufferSize =
     (case make_chan bufferSize of
        Inl p \<Rightarrow> Inl p
      | Inr c \<Rightarrow> Inr \<lparr>events = c\<rparr>)"

definition Enqueue ::
  "InMemoryEventQueue \<Rightarrow> ProductEvent \<Rightarrow> go_panic + (error option \<times> InMemoryEventQueue)" where
  "Enqueue q event =
     (case select_send (events q) event of
        Inl p \<Rightarrow> Inl p
      | Inr (sent, c) \<Rightarrow>
          if sent then Inr (None, q\<lparr>events := c\<rparr>)
          else Inr (Some QueueFull, q))"

text \<open>
  \<^verbatim>\<open>Dequeue\<close> returns the event and \<^verbatim>\<open>ok\<close>; \<open>None\<close> stands for a call that does not
  return because the queue is open and empty.
\<close>

definition Dequeue ::
  "InMemoryEventQueue \<Rightarrow> ((ProductEvent \<times> bool) \<times> InMemoryEventQueue) option" where
  "Dequeue q =
     (case chan_recv (events q) of
        Received event c \<Rightarrow> Some ((event, True), q\<lparr>events := c\<rparr>)
      | ClosedAndDrained \<Rightarrow>
          Some ((\<lparr>ProductID = [], ProductEvent.Price = 0, ProductEvent.Stock = 0\<rparr>, False), q)
      | Blocks \<Rightarrow> None)"

definition Close :: "InMemoryEventQueue \<Rightarrow> go_panic + InMemoryEventQueue" where
  "Close q =
     (case chan_close (events q) of
        Inl p \<Rightarrow> Inl p
      | Inr c \<Rightarrow> Inr (q\<lparr>events := c\<rparr>))"

text \<open>A run of \<^verbatim>\<open>Enqueue\<close> calls, one per event, with no other call in between.\<close>

fun EnqueueAll ::
  "InMemoryEventQueue \<Rightarrow> ProductEvent list \<Rightarrow> go_panic + (error option list \<times> InMemoryEventQueue)" where
  "EnqueueAll q [] = Inr ([], q)"
| "EnqueueAll q (e # es) =
     (case Enqueue q e of
        Inl p \<Rightarrow> Inl p
      | Inr (r, q1) \<Rightarrow>
          (case EnqueueAll q1 es of
             Inl p \<Rightarrow> Inl p
           | Inr (rs, q2) \<Rightarrow> Inr (r # rs, q2)))"

section \<open>The circuit breaker\<close>

text \<open>
  An operation is a Go closure \<^verbatim>\<open>func() error\<close>. It acts on the part of the program state
  that lies outside the component calling it (the world \<open>'w\<close>) and returns \<^verbatim>\<open>nil\<close> or an
  error; operations that return are modelled, not ones that panic. The clock is part of the
  world: \<open>now w\<close> is what \<^verbatim>\<open>time.Now()\<close> reads in \<open>w\<close>, and \<open>sleep d w\<close> is the world after
  \<^verbatim>\<open>time.Sleep(d)\<close>.
\<close>

type_synonym 'w operation = "'w \<Rightarrow> error option \<times> 'w"

datatype State = Closed | Open | HalfOpen

text \<open>The mutex is left out: every method holds it from entry to return.\<close>

record CircuitBreaker =
  failureThreshold :: int
  timeout :: Duration
  state :: State
  failures :: int
  lastFailureTime :: Time

text \<open>Times count from the zero \<^verbatim>\<open>time.Time\<close>, which a new breaker holds.\<close>

definition NewCircuitBreaker :: "int \<Rightarrow> Duration \<Rightarrow> CircuitBreaker" where
  "NewCircuitBreaker threshold tmo =
     \<lparr>failureThreshold = threshold, timeout = tmo, state = Closed, failures = 0,
      lastFailureTime = 0\<rparr>"

definition recordFailure :: "Time \<Rightarrow> CircuitBreaker \<Rightarrow> CircuitBreaker" where
  "recordFailure t cb =
     (let cb1 = cb\<lparr>failures := wrap_int (failures cb + 1), lastFailureTime := t\<rparr>
      in if failures cb1 \<ge> failureThreshold cb1 then cb1\<lparr>state := Open\<rparr> else cb1)"

definition recordSuccess :: "CircuitBreaker \<Rightarrow> CircuitBreaker" where
  "recordSuccess cb =
     (let cb1 = (if state cb = HalfOpen then cb\<lparr>state := Closed\<rparr> else cb)
      in cb1\<lparr>failures := 0\<rparr>)"

definition Execute ::
  "('w \<Rightarrow> Time) \<Rightarrow> CircuitBreaker \<Rightarrow> 'w operation \<Rightarrow> 'w \<Rightarrow> error option \<times> CircuitBreaker \<times> 'w" where
  "Execute now cb operation w =
     (if state cb = Open \<and> Since (now w) (lastFailureTime cb) < timeout cb
      then (Some CircuitOpen, cb, w)
      else
        let cb1 = (if state cb = Open then cb\<lparr>state := HalfOpen\<rparr> else cb)
        in case operation w of
             (Some err, w1) \<Rightarrow> (Some err, recordFailure (now w1) cb1, w1)
           | (None, w1) \<Rightarrow> (None, recordSuccess cb1, w1))"

definition GetState :: "CircuitBreaker \<Rightarrow> State" where
  "GetState cb = state cb"

definition GetFailureCount :: "CircuitBreaker \<Rightarrow> int" where
  "GetFailureCount cb = failures cb"

definition Reset :: "CircuitBreaker \<Rightarrow> CircuitBreaker" where
  "Reset cb = cb\<lparr>state := Closed, failures := 0\<rparr>"

section \<open>The retry executor\<close>

text \<open>
  A float64 is a finite number, an infinity or NaN; \<open>Finite x\<close> is the float64 whose value is
  \<open>x\<close> (the two zeros are not told apart: both convert to the integer 0).
\<close>

datatype float64 = Finite real | PosInf | NegInf | NaN

record RetryConfig =
  MaxAttempts :: int
  InitialDelay :: Duration
  MaxDelay :: Duration
  Multiplier :: float64

definition DefaultRetryConfig :: RetryConfig where
  "DefaultRetryConfig =
     \<lparr>MaxAttempts = 3, InitialDelay = 100 * 1000000, MaxDelay = 30 * 1000000000,
      Multiplier = Finite 2\<rparr>"

text \<open>
  float64 arithmetic rounds every result to the nearest float64, a tie to the one whose last
  bit is even. \<open>float64_quantum x\<close> is the exponent of the spacing of the float64s around
  \<open>x\<close>: 52 below the exponent of \<open>x\<close>, which is never taken below \<open>-1022\<close>. \<open>round_float64 x\<close> is
  \<open>x\<close> rounded to a multiple of that spacing.
\<close>

definition round_half_even :: "real \<Rightarrow> int" where
  "round_half_even x =
     (let f = \<lfloor>x\<rfloor>; r = x - of_int f
      in if r < 1 / 2 then f
         else if 1 / 2 < r then f + 1
         else if even f then f else f + 1)"

definition float64_quantum :: "real \<Rightarrow> int" where
  "float64_quantum x = max (bitlen \<lfloor>\<bar>x\<bar> * 2 ^ 1074\<rfloor> - 1 - 1074) (- 1022) - 52"

definition round_float64 :: "real \<Rightarrow> real" where
  "round_float64 x =
     (let z = float64_quantum x
      in of_int (round_half_even (x * 2 ^ nat (- z) / 2 ^ nat z)) * 2 ^ nat z / 2 ^ nat (- z))"

text \<open>
  The conversion of a float64 to an integer drops the fraction. When the result does not fit
  an int64 (also for an infinity and for NaN) the conversion yields a value that Go leaves to
  the implementation: \<open>platform_int64\<close>, of which nothing is known but that it is a function
  of the operands.
\<close>

definition trunc :: "real \<Rightarrow> int" where
  "trunc x = (if 0 \<le> x then \<lfloor>x\<rfloor> else \<lceil>x\<rceil>)"

definition platform_int64 :: "Duration \<Rightarrow> float64 \<Rightarrow> Duration" where
  "platform_int64 delay m = undefined delay m"

text \<open>
  \<^verbatim>\<open>time.Duration(float64(delay) * r.Multiplier)\<close>: the delay is converted to float64, which
  rounds it; the product is rounded; the result is converted back to whole nanoseconds. A
  product with an infinity or NaN is an infinity or NaN, and a product too large for a
  float64 is an infinity; none of them fits an int64, and neither does what \<open>round_float64\<close>
  makes of so large a product.
\<close>

definition scale_delay :: "Duration \<Rightarrow> float64 \<Rightarrow> Duration" where
  "scale_delay delay m =
     (case m of
        Finite x \<Rightarrow>
          (let p = round_float64 (round_float64 (real_of_int delay) * x)
           in if - (2 ^ 63) \<le> p \<and> p < 2 ^ 63 then trunc p else platform_int64 delay m)
      | _ \<Rightarrow> platform_int64 delay m)"

text \<open>The three statements after the sleep, the same in both loops.\<close>

definition next_delay :: "RetryConfig \<Rightarrow> Duration \<Rightarrow> Duration" where
  "next_delay r delay =
     (let delay1 = scale_delay delay (Multiplier r)
      in if delay1 > MaxDelay r then MaxDelay r else delay1)"

function ExecuteWithRetry_loop ::
  "RetryConfig \<Rightarrow> (Duration \<Rightarrow> 'w \<Rightarrow> 'w) \<Rightarrow> 'w operation \<Rightarrow> int \<Rightarrow> Duration \<Rightarrow> 'w \<Rightarrow> error option \<times> 'w" where
  "ExecuteWithRetry_loop r sleep operation attempt delay w =
     (if attempt \<le> MaxAttempts r then
        (case operation w of
           (None, w1) \<Rightarrow> (None, w1)
         | (Some err, w1) \<Rightarrow>
             if attempt = MaxAttempts r then (Some (OperationFailed (MaxAttempts r)), w1)
             else ExecuteWithRetry_loop r sleep operation (attempt + 1) (next_delay r delay)
                    (sleep delay w1))
      else (None, w))"
  by pat_completeness auto
termination
  by (relation "measure (\<lambda>(r, sleep, operation, attempt, delay, w). nat (MaxAttempts r - attempt))")
     auto

declare ExecuteWithRetry_loop.simps [simp del]

definition ExecuteWithRetry ::
  "RetryConfig \<Rightarrow> (Duration \<Rightarrow> 'w \<Rightarrow> 'w) \<Rightarrow> 'w operation \<Rightarrow> 'w \<Rightarrow> error option \<times> 'w" where
  "ExecuteWithRetry r sleep operation w =
     ExecuteWithRetry_loop r sleep operation 1 (InitialDelay r) w"

text \<open>
  The loop counter is not wrapped: the loop returns at \<open>attempt = MaxAttempts\<close>, before the
  increment could overflow. \<^verbatim>\<open>onFailure\<close> may be \<^verbatim>\<open>nil\<close> (\<open>None\<close>); it is called with the
  attempt and a new error.
\<close>

type_synonym 'w callback = "int \<Rightarrow> error \<Rightarrow> 'w \<Rightarrow> 'w"

function ExecuteWithRetryAndCallback_loop ::
  "RetryConfig \<Rightarrow> (Duration \<Rightarrow> 'w \<Rightarrow> 'w) \<Rightarrow> 'w operation \<Rightarrow> 'w callback option \<Rightarrow> int \<Rightarrow> Duration \<Rightarrow> 'w
     \<Rightarrow> error option \<times> 'w" where
  "ExecuteWithRetryAndCallback_loop r sleep operation onFailure attempt delay w =
     (if attempt \<le> MaxAttempts r then
        (case operation w of
           (None, w1) \<Rightarrow> (None, w1)
         | (Some err, w1) \<Rightarrow>
             let w2 = (case onFailure of
                         Some f \<Rightarrow> f attempt (AttemptFailed attempt) w1
                       | None \<Rightarrow> w1)
             in if attempt = MaxAttempts r then (Some (OperationFailed (MaxAttempts r)), w2)
                else ExecuteWithRetryAndCallback_loop r sleep operation onFailure (attempt + 1)
                       (next_delay r delay) (sleep delay w2))
      else (None, w))"
  by pat_completeness auto
termination
  by (relation "measure (\<lambda>(r, sleep, operation, onFailure, attempt, delay, w).
                  nat (MaxAttempts r - attempt))")
     auto

declare ExecuteWithRetryAndCallback_loop.simps [simp del]

definition ExecuteWithRetryAndCallback ::
  "RetryConfig \<Rightarrow> (Duration \<Rightarrow> 'w \<Rightarrow> 'w) \<Rightarrow> 'w operation \<Rightarrow> 'w callback option \<Rightarrow> 'w \<Rightarrow> error option \<times> 'w" where
  "ExecuteWithRetryAndCallback r sleep operation onFailure w =
     ExecuteWithRetryAndCallback_loop r sleep operation onFailure 1 (InitialDelay r) w"

section \<open>The product store\<close>

record InMemoryProductRepository =
  data :: "string \<rightharpoonup> Product"

definition NewInMemoryProductRepository :: InMemoryProductRepository where
  "NewInMemoryProductRepository = \<lparr>data = Map.empty\<rparr>"

text \<open>\<^verbatim>\<open>Get\<close> returns the product and whether it exists: \<open>None\<close> is \<^verbatim>\<open>(nil, false)\<close>.\<close>

definition Get :: "InMemoryProductRepository \<Rightarrow> string \<Rightarrow> Product option" where
  "Get r ident = data r ident"

definition Update :: "InMemoryProductRepository \<Rightarrow> string \<Rightarrow> real \<Rightarrow> int \<Rightarrow> InMemoryProductRepository" where
  "Update r ident price stock =
     r\<lparr>data := (data r)(ident \<mapsto> \<lparr>ID = ident, Product.Price = price, Product.Stock = stock\<rparr>)\<rparr>"

section \<open>The worker pool\<close>

text \<open>
  The pool's queue and repository are the in-memory ones; \<open>ctx_done\<close> tells whether the
  pool's context has been cancelled. The logger only prints and is left out.
\<close>

record WorkerPool =
  workers :: int
  queue :: InMemoryEventQueue
  repository :: InMemoryProductRepository
  circuitBreaker :: CircuitBreaker
  retryConfig :: RetryConfig
  ctx_done :: bool

definition NewWorkerPool ::
  "int \<Rightarrow> InMemoryEventQueue \<Rightarrow> InMemoryProductRepository \<Rightarrow> CircuitBreaker \<Rightarrow> RetryConfig \<Rightarrow> WorkerPool" where
  "NewWorkerPool n eventQueue repo cb rc =
     \<lparr>workers = n, queue = eventQueue, repository = repo, circuitBreaker = cb, retryConfig = rc,
      ctx_done = False\<rparr>"

text \<open>
  \<^verbatim>\<open>processEvent\<close> runs on a clock \<open>c\<close> (read by \<open>now\<close>, advanced by \<open>sleep\<close>) and on the
  pool's circuit breaker and repository. The innermost closure sleeps 10ms, updates the
  repository and returns \<^verbatim>\<open>nil\<close>; the closure given to the retry executor passes it through
  the circuit breaker; the callback only logs. The final error is only logged.
\<close>

definition processEvent ::
  "('c \<Rightarrow> Time) \<Rightarrow> (Duration \<Rightarrow> 'c \<Rightarrow> 'c) \<Rightarrow> WorkerPool \<Rightarrow> ProductEvent \<Rightarrow> int \<Rightarrow> 'c \<Rightarrow> 'c \<times> WorkerPool" where
  "processEvent now sleep wp event workerID c =
     (let update = (\<lambda>(c, repo).
            (None, (sleep (10 * 1000000) c,
                    Update repo (ProductID event) (ProductEvent.Price event) (ProductEvent.Stock event))));
          operation = (\<lambda>(c, cb, repo).
            case Execute (\<lambda>(c, repo). now c) cb update (c, repo) of
              (err, cb1, (c1, repo1)) \<Rightarrow> (err, (c1, cb1, repo1)));
          onFailure = Some (\<lambda>attempt err w. w)
      in case ExecuteWithRetryAndCallback (retryConfig wp) (\<lambda>d (c, cb, repo). (sleep d c, cb, repo))
                operation onFailure (c, circuitBreaker wp, repository wp) of
           (err, (c1, cb1, repo1)) \<Rightarrow> (c1, wp\<lparr>circuitBreaker := cb1, repository := repo1\<rparr>))"

text \<open>
  One worker, run until it returns or parks: it returns when the context is cancelled
  (\<open>Stopping\<close>) or the queue is closed and drained (\<open>QueueClosedExit\<close>), and it parks in
  \<^verbatim>\<open>Dequeue\<close> when the queue is open and empty (\<open>WaitingInDequeue\<close>).
\<close>

datatype worker_end = Stopping | QueueClosedExit | WaitingInDequeue

function worker ::
  "('c \<Rightarrow> Time) \<Rightarrow> (Duration \<Rightarrow> 'c \<Rightarrow> 'c) \<Rightarrow> int \<Rightarrow> 'c \<times> WorkerPool \<Rightarrow> worker_end \<times> 'c \<times> WorkerPool" where
  "worker now sleep ident (c, wp) =
     (if ctx_done wp then (Stopping, c, wp)
      else
        case Dequeue (queue wp) of
          None \<Rightarrow> (WaitingInDequeue, c, wp)
        | Some ((event, ok), q1) \<Rightarrow>
            if \<not> ok then (QueueClosedExit, c, wp\<lparr>queue := q1\<rparr>)
            else worker now sleep ident (processEvent now sleep (wp\<lparr>queue := q1\<rparr>) event ident c))"
  by pat_completeness auto
termination
  by (relation "measure (\<lambda>(now, sleep, ident, c, wp). length (chan_buf (events (queue wp))))")
     (auto simp: processEvent_def Dequeue_def chan_recv_def Let_def
           split: prod.splits list.splits if_splits)

declare worker.simps [simp del]

section \<open>The batch processor\<close>

text \<open>
  The fields read or written by \<^verbatim>\<open>AddEvent\<close> and \<^verbatim>\<open>flushBatch\<close>. The mutex, the stop
  channel and the handler function belong to the background goroutine and are left out.
\<close>

record BatchProcessor =
  batchSize :: int
  flushInterval :: Duration
  events :: "ProductEvent list"
  flushChan :: "ProductEvent list chan"

text \<open>
  \<^verbatim>\<open>make([]T, 0, batchSize)\<close> panics for a negative capacity; the flush channel has
  room for 10 batches.
\<close>

definition NewBatchProcessor :: "int \<Rightarrow> Duration \<Rightarrow> go_panic + BatchProcessor" where
  "NewBatchProcessor bsize interval =
     (if bsize < 0 then Inl MakeSliceCapOutOfRange
      else case make_chan 10 of
             Inl p \<Rightarrow> Inl p
           | Inr ch \<Rightarrow>
               Inr \<lparr>batchSize = bsize, flushInterval = interval, events = [], flushChan = ch\<rparr>)"

definition flushBatch :: "BatchProcessor \<Rightarrow> go_panic + (error option \<times> BatchProcessor)" where
  "flushBatch bp =
     (if length (BatchProcessor.events bp) = 0 then Inr (None, bp)
      else
        let eventsToProcess = BatchProcessor.events bp;
            bp1 = bp\<lparr>BatchProcessor.events := []\<rparr>
        in case select_send (flushChan bp1) eventsToProcess of
             Inl p \<Rightarrow> Inl p
           | Inr (sent, ch) \<Rightarrow>
               if sent then Inr (None, bp1\<lparr>flushChan := ch\<rparr>)
               else Inr (Some BatchProcessorFull, bp1))"

definition AddEvent :: "BatchProcessor \<Rightarrow> ProductEvent \<Rightarrow> go_panic + (error option \<times> BatchProcessor)" where
  "AddEvent bp event =
     (let bp1 = bp\<lparr>BatchProcessor.events := BatchProcessor.events bp @ [event]\<rparr>
      in if int (length (BatchProcessor.events bp1)) \<ge> batchSize bp1 then flushBatch bp1
         else Inr (None, bp1))"

section \<open>Observing calls\<close>

text \<open>
  To count the invocations of an operation and to record the sleeps, the world is extended by
  a counter and a log. \<open>observe f\<close> is the closure that counts its invocations and behaves as
  \<open>f k\<close> on its \<open>k\<close>-th invocation; \<open>observe_sleep\<close> logs the duration slept.
\<close>

record 'w trace =
  calls :: nat
  sleeps :: "Duration list"
  world :: 'w

definition observe :: "(nat \<Rightarrow> 'w operation) \<Rightarrow> 'w trace operation" where
  "observe f t =
     (case f (Suc (calls t)) (world t) of
        (err, w1) \<Rightarrow> (err, t\<lparr>calls := Suc (calls t), world := w1\<rparr>))"

definition observe_sleep :: "(Duration \<Rightarrow> 'w \<Rightarrow> 'w) \<Rightarrow> Duration \<Rightarrow> 'w trace \<Rightarrow> 'w trace" where
  "observe_sleep sleep d t = t\<lparr>sleeps := sleeps t @ [d], world := sleep d (world t)\<rparr>"

text \<open>A callback observed alike: it acts on the world and leaves the counter and the log alone.\<close>

definition observe_callback :: "'w callback \<Rightarrow> 'w trace callback" where
  "observe_callback g attempt err t = t\<lparr>world := g attempt err (world t)\<rparr>"

text \<open>The delays of \<open>n\<close> sleeps in a row of either retry loop, the first of them \<open>d\<close>.\<close>

fun delays :: "RetryConfig \<Rightarrow> Duration \<Rightarrow> nat \<Rightarrow> Duration list" where
  "delays r d 0 = []"
| "delays r d (Suc n) = d # delays r (next_delay r d) n"

text \<open>
  A call made on a circuit breaker: \<^verbatim>\<open>Execute\<close> with an operation, in the world in which the
  call is made, or \<^verbatim>\<open>Reset\<close>. \<open>after_calls\<close> is the breaker after a sequence of calls.
\<close>

datatype 'w cb_call = ExecuteCall "'w operation" 'w | ResetCall

fun apply_call :: "('w \<Rightarrow> Time) \<Rightarrow> CircuitBreaker \<Rightarrow> 'w cb_call \<Rightarrow> CircuitBreaker" where
  "apply_call now cb (ExecuteCall operation w) = fst (snd (Execute now cb operation w))"
| "apply_call now cb ResetCall = Reset cb"

definition after_calls :: "('w \<Rightarrow> Time) \<Rightarrow> CircuitBreaker \<Rightarrow> 'w cb_call list \<Rightarrow> CircuitBreaker" where
  "after_calls now cb cs = foldl (apply_call now) cb cs"

fun failing_call :: "'w cb_call \<Rightarrow> bool" where
  "failing_call (ExecuteCall operation w) = (fst (operation w) \<noteq> None)"
| "failing_call ResetCall = False"

section \<open>Properties\<close>

subsection \<open>The bounded event queue\<close>

lemma Enqueue_open:
  "\<not> chan_closed (InMemoryEventQueue.events q) \<Longrightarrow>
   Enqueue q e =
     (if length (chan_buf (InMemoryEventQueue.events q)) < chan_cap (InMemoryEventQueue.events q)
      then Inr (None, q\<lparr>InMemoryEventQueue.events :=
                  (InMemoryEventQueue.events q)\<lparr>chan_buf := chan_buf (InMemoryEventQueue.events q) @ [e]\<rparr>\<rparr>)
      else Inr (Some QueueFull, q))"
  by (simp add: Enqueue_def select_send_def)

lemma EnqueueAll_room:
  "\<not> chan_closed (InMemoryEventQueue.events q) \<Longrightarrow>
   length (chan_buf (InMemoryEventQueue.events q)) + length es \<le> chan_cap (InMemoryEventQueue.events q) \<Longrightarrow>
   EnqueueAll q es =
     Inr (replicate (length es) None,
          q\<lparr>InMemoryEventQueue.events :=
              (InMemoryEventQueue.events q)\<lparr>chan_buf := chan_buf (InMemoryEventQueue.events q) @ es\<rparr>\<rparr>)"
proof (induction es arbitrary: q)
  case Nil
  then show ?case by simp
next
  case (Cons e es)
  let ?q1 = "q\<lparr>InMemoryEventQueue.events :=
               (InMemoryEventQueue.events q)\<lparr>chan_buf := chan_buf (InMemoryEventQueue.events q) @ [e]\<rparr>\<rparr>"
  from Cons.prems have step: "Enqueue q e = Inr (None, ?q1)"
    by (simp add: Enqueue_open)
  from Cons.prems have "\<not> chan_closed (InMemoryEventQueue.events ?q1)"
    and "length (chan_buf (InMemoryEventQueue.events ?q1)) + length es
           \<le> chan_cap (InMemoryEventQueue.events ?q1)"
    by simp_all
  from Cons.IH [OF this] step show ?case by simp
qed

lemma EnqueueAll_full:
  "\<not> chan_closed (InMemoryEventQueue.events q) \<Longrightarrow>
   chan_cap (InMemoryEventQueue.events q) \<le> length (chan_buf (InMemoryEventQueue.events q)) \<Longrightarrow>
   EnqueueAll q es = Inr (replicate (length es) (Some QueueFull), q)"
  by (induction es) (simp_all add: Enqueue_open)

text \<open>
  C2. For every capacity \<open>C \<ge> 0\<close> the queue is created; on the fresh queue any \<open>C\<close> enqueues
  in a row all succeed, and every enqueue after them fails with \<open>QueueFull\<close> and leaves the
  queue as it is. With capacity 0 every enqueue of any run fails with \<open>QueueFull\<close>.
\<close>

theorem bounded_queue_capacity:
  assumes "0 \<le> C"
  shows "\<exists>q0. NewInMemoryEventQueue C = Inr q0 \<and>
           (\<forall>es. length es = nat C \<longrightarrow>
              (\<exists>q1. EnqueueAll q0 es = Inr (replicate (nat C) None, q1) \<and>
                    (\<forall>e. Enqueue q1 e = Inr (Some QueueFull, q1)))) \<and>
           (C = 0 \<longrightarrow> (\<forall>es. EnqueueAll q0 es = Inr (replicate (length es) (Some QueueFull), q0)))"
proof -
  let ?q0 = "\<lparr>InMemoryEventQueue.events = \<lparr>chan_buf = [], chan_cap = nat C, chan_closed = False\<rparr>\<rparr>"
  have new: "NewInMemoryEventQueue C = Inr ?q0"
    using assms by (simp add: NewInMemoryEventQueue_def make_chan_def)
  have fill: "\<exists>q1. EnqueueAll ?q0 es = Inr (replicate (nat C) None, q1) \<and>
                 (\<forall>e. Enqueue q1 e = Inr (Some QueueFull, q1))"
    if len: "length es = nat C" for es
  proof -
    let ?q1 = "?q0\<lparr>InMemoryEventQueue.events :=
                 (InMemoryEventQueue.events ?q0)\<lparr>chan_buf := chan_buf (InMemoryEventQueue.events ?q0) @ es\<rparr>\<rparr>"
    have "EnqueueAll ?q0 es = Inr (replicate (length es) None, ?q1)"
      by (rule EnqueueAll_room) (simp_all add: len)
    moreover have "Enqueue ?q1 e = Inr (Some QueueFull, ?q1)" for e
      by (simp add: Enqueue_open len)
    ultimately show ?thesis using len by auto
  qed
  have zero: "EnqueueAll ?q0 es = Inr (replicate (length es) (Some QueueFull), ?q0)" if "C = 0" for es
    by (rule EnqueueAll_full) (simp_all add: that)
  from new fill zero show ?thesis by blast
qed

theorem bounded_queue_capacity_witness:
  "(0::int) \<le> 2 \<and>
   (\<exists>q0. NewInMemoryEventQueue 2 = Inr q0 \<and>
      (\<exists>q1. EnqueueAll q0 [\<lparr>ProductID = ''1'', ProductEvent.Price = 1, ProductEvent.Stock = 1\<rparr>,
                           \<lparr>ProductID = ''2'', ProductEvent.Price = 2, ProductEvent.Stock = 2\<rparr>]
               = Inr ([None, None], q1) \<and>
            Enqueue q1 \<lparr>ProductID = ''3'', ProductEvent.Price = 3, ProductEvent.Stock = 3\<rparr>
               = Inr (Some QueueFull, q1)))"
proof -
  have h: "(0::int) \<le> 2" by simp
  from bounded_queue_capacity [OF h] obtain q0 where
    n: "NewInMemoryEventQueue 2 = Inr q0" and
    f: "\<And>es. length es = nat 2 \<Longrightarrow>
          \<exists>q1. EnqueueAll q0 es = Inr (replicate (nat 2) None, q1) \<and>
               (\<forall>e. Enqueue q1 e = Inr (Some QueueFull, q1))"
    by blast
  from f [of "[\<lparr>ProductID = ''1'', ProductEvent.Price = 1, ProductEvent.Stock = 1\<rparr>,
               \<lparr>ProductID = ''2'', ProductEvent.Price = 2, ProductEvent.Stock = 2\<rparr>]"]
  obtain q1 where
    "EnqueueAll q0 [\<lparr>ProductID = ''1'', ProductEvent.Price = 1, ProductEvent.Stock = 1\<rparr>,
                    \<lparr>ProductID = ''2'', ProductEvent.Price = 2, ProductEvent.Stock = 2\<rparr>]
       = Inr (replicate (nat 2) None, q1)"
    and "\<forall>e. Enqueue q1 e = Inr (Some QueueFull, q1)"
    by auto
  moreover have "replicate (nat 2) None = [None, None :: error option]"
    by (simp add: numeral_2_eq_2)
  ultimately show ?thesis using n h by auto
qed

text \<open>
  C5. The run of the queue's own test: two events are enqueued, the queue is closed, and the
  third enqueue does not return an error: it panics.
\<close>

theorem enqueue_after_close_panics:
  "\<exists>q0 q1 q2 q3.
     NewInMemoryEventQueue 10 = Inr q0 \<and>
     Enqueue q0 \<lparr>ProductID = ''1'', ProductEvent.Price = 1, ProductEvent.Stock = 1\<rparr> = Inr (None, q1) \<and>
     Enqueue q1 \<lparr>ProductID = ''2'', ProductEvent.Price = 2, ProductEvent.Stock = 2\<rparr> = Inr (None, q2) \<and>
     Close q2 = Inr q3 \<and>
     Enqueue q3 \<lparr>ProductID = ''3'', ProductEvent.Price = 3, ProductEvent.Stock = 3\<rparr>
       = Inl SendOnClosedChannel"
  by (simp add: NewInMemoryEventQueue_def make_chan_def Enqueue_def select_send_def Close_def
        chan_close_def)

lemma Enqueue_closed:
  "Close q = Inr q' \<Longrightarrow> Enqueue q' e = Inl SendOnClosedChannel"
  by (auto simp: Enqueue_def select_send_def Close_def chan_close_def split: if_splits)

subsection \<open>The batch processor\<close>

text \<open>
  C6. With batch size \<open>B \<ge> 1\<close>, \<open>B - 1\<close> events buffered and room in the flush channel,
  \<^verbatim>\<open>AddEvent\<close> returns \<^verbatim>\<open>nil\<close>, the buffer is empty afterwards, and the flush channel has
  gained exactly one batch: the \<open>B - 1\<close> buffered events followed by the new one. The flush
  channel is open: it is made open and the program never closes it.
\<close>

theorem AddEvent_flushes_full_batch:
  assumes "1 \<le> B" and "batchSize bp = B"
    and "int (length (BatchProcessor.events bp)) = B - 1"
    and "\<not> chan_closed (flushChan bp)"
    and "length (chan_buf (flushChan bp)) < chan_cap (flushChan bp)"
  shows "AddEvent bp event =
           Inr (None, bp\<lparr>BatchProcessor.events := [],
                        flushChan := (flushChan bp)\<lparr>chan_buf :=
                          chan_buf (flushChan bp) @ [BatchProcessor.events bp @ [event]]\<rparr>\<rparr>)"
  using assms by (simp add: AddEvent_def flushBatch_def select_send_def Let_def)

theorem AddEvent_flushes_full_batch_witness:
  "(1::int) \<le> 2 \<and>
   AddEvent \<lparr>batchSize = 2, flushInterval = 1000000000,
             events = [\<lparr>ProductID = ''a'', ProductEvent.Price = 1, ProductEvent.Stock = 1\<rparr>],
             flushChan = \<lparr>chan_buf = [], chan_cap = 10, chan_closed = False\<rparr>\<rparr>
            \<lparr>ProductID = ''b'', ProductEvent.Price = 2, ProductEvent.Stock = 2\<rparr>
     = Inr (None,
         \<lparr>batchSize = 2, flushInterval = 1000000000, events = [],
          flushChan = \<lparr>chan_buf = [[\<lparr>ProductID = ''a'', ProductEvent.Price = 1, ProductEvent.Stock = 1\<rparr>,
                                     \<lparr>ProductID = ''b'', ProductEvent.Price = 2, ProductEvent.Stock = 2\<rparr>]],
                       chan_cap = 10, chan_closed = False\<rparr>\<rparr>)"
  using AddEvent_flushes_full_batch [of 2
          "\<lparr>batchSize = 2, flushInterval = 1000000000,
            events = [\<lparr>ProductID = ''a'', ProductEvent.Price = 1, ProductEvent.Stock = 1\<rparr>],
            flushChan = \<lparr>chan_buf = [], chan_cap = 10, chan_closed = False\<rparr>\<rparr>"
          "\<lparr>ProductID = ''b'', ProductEvent.Price = 2, ProductEvent.Stock = 2\<rparr>"]
  by simp

text \<open>
  C7. A flush of a non-empty buffer that finds the flush channel full returns
  \<open>BatchProcessorFull\<close>; the buffer is empty afterwards and the flush channel is as before,
  so the events are in neither. The flush channel is open, as the program never closes it.
\<close>

theorem flushBatch_full_channel_drops_events:
  assumes "BatchProcessor.events bp \<noteq> []"
    and "\<not> chan_closed (flushChan bp)"
    and "chan_cap (flushChan bp) \<le> length (chan_buf (flushChan bp))"
  shows "flushBatch bp = Inr (Some BatchProcessorFull, bp\<lparr>BatchProcessor.events := []\<rparr>)"
  using assms by (simp add: flushBatch_def select_send_def Let_def)

theorem flushBatch_full_channel_drops_events_witness:
  "flushBatch \<lparr>batchSize = 5, flushInterval = 1000000000,
               events = [\<lparr>ProductID = ''a'', ProductEvent.Price = 1, ProductEvent.Stock = 1\<rparr>],
               flushChan = \<lparr>chan_buf = [[], []], chan_cap = 2, chan_closed = False\<rparr>\<rparr>
     = Inr (Some BatchProcessorFull,
         \<lparr>batchSize = 5, flushInterval = 1000000000, events = [],
          flushChan = \<lparr>chan_buf = [[], []], chan_cap = 2, chan_closed = False\<rparr>\<rparr>)"
  using flushBatch_full_channel_drops_events [of
          "\<lparr>batchSize = 5, flushInterval = 1000000000,
            events = [\<lparr>ProductID = ''a'', ProductEvent.Price = 1, ProductEvent.Stock = 1\<rparr>],
            flushChan = \<lparr>chan_buf = [[], []], chan_cap = 2, chan_closed = False\<rparr>\<rparr>"]
  by simp

subsection \<open>The retry executor\<close>

lemma retry_step:
  "ExecuteWithRetry_loop r (observe_sleep sl) (observe f) a d t =
     (if a \<le> MaxAttempts r then
        (case f (Suc (calls t)) (world t) of
           (None, w1) \<Rightarrow> (None, t\<lparr>calls := Suc (calls t), world := w1\<rparr>)
         | (Some e, w1) \<Rightarrow>
             if a = MaxAttempts r
             then (Some (OperationFailed (MaxAttempts r)), t\<lparr>calls := Suc (calls t), world := w1\<rparr>)
             else ExecuteWithRetry_loop r (observe_sleep sl) (observe f) (a + 1) (next_delay r d)
                    (t\<lparr>calls := Suc (calls t), sleeps := sleeps t @ [d], world := sl d w1\<rparr>))
      else (None, t))"
  by (subst ExecuteWithRetry_loop.simps)
     (simp add: observe_def observe_sleep_def split: prod.splits option.splits)

lemma retry_callback_step:
  "ExecuteWithRetryAndCallback_loop r (observe_sleep sl) (observe f) (map_option observe_callback g) a d t =
     (if a \<le> MaxAttempts r then
        (case f (Suc (calls t)) (world t) of
           (None, w1) \<Rightarrow> (None, t\<lparr>calls := Suc (calls t), world := w1\<rparr>)
         | (Some e, w1) \<Rightarrow>
             let w2 = (case g of Some h \<Rightarrow> h a (AttemptFailed a) w1 | None \<Rightarrow> w1)
             in if a = MaxAttempts r
                then (Some (OperationFailed (MaxAttempts r)), t\<lparr>calls := Suc (calls t), world := w2\<rparr>)
                else ExecuteWithRetryAndCallback_loop r (observe_sleep sl) (observe f)
                       (map_option observe_callback g) (a + 1) (next_delay r d)
                       (t\<lparr>calls := Suc (calls t), sleeps := sleeps t @ [d], world := sl d w2\<rparr>))
      else (None, t))"
  by (subst ExecuteWithRetryAndCallback_loop.simps)
     (simp add: observe_def observe_sleep_def observe_callback_def Let_def
           split: prod.splits option.splits)

text \<open>
  C10. With \<open>MaxAttempts \<le> 0\<close> both functions return \<^verbatim>\<open>nil\<close> and the world as it was, for
  every operation, sleep and callback: nothing was invoked and nothing slept.
\<close>

theorem retry_without_attempts:
  assumes "MaxAttempts r \<le> 0"
  shows "ExecuteWithRetry r sleep operation w = (None, w) \<and>
         ExecuteWithRetryAndCallback r sleep operation onFailure w = (None, w)"
  using assms
  by (simp add: ExecuteWithRetry_def ExecuteWithRetryAndCallback_def
        ExecuteWithRetry_loop.simps [of r sleep operation 1]
        ExecuteWithRetryAndCallback_loop.simps [of r sleep operation onFailure 1])

theorem retry_without_attempts_witness:
  "MaxAttempts \<lparr>MaxAttempts = 0, InitialDelay = 10, MaxDelay = 100, Multiplier = Finite 2\<rparr> \<le> 0 \<and>
   ExecuteWithRetry \<lparr>MaxAttempts = 0, InitialDelay = 10, MaxDelay = 100, Multiplier = Finite 2\<rparr>
       (observe_sleep (\<lambda>d w. w)) (observe (\<lambda>k w. (Some (OtherError ''test error''), w)))
       \<lparr>calls = 0, sleeps = [], world = ()\<rparr>
     = (None, \<lparr>calls = 0, sleeps = [], world = ()\<rparr>) \<and>
   ExecuteWithRetryAndCallback \<lparr>MaxAttempts = 0, InitialDelay = 10, MaxDelay = 100, Multiplier = Finite 2\<rparr>
       (observe_sleep (\<lambda>d w. w)) (observe (\<lambda>k w. (Some (OtherError ''test error''), w))) None
       \<lparr>calls = 0, sleeps = [], world = ()\<rparr>
     = (None, \<lparr>calls = 0, sleeps = [], world = ()\<rparr>)"
  using retry_without_attempts [of "\<lparr>MaxAttempts = 0, InitialDelay = 10, MaxDelay = 100, Multiplier = Finite 2\<rparr>"
          "observe_sleep (\<lambda>d w. w)" "observe (\<lambda>k w. (Some (OtherError ''test error''), w))"
          "\<lparr>calls = 0, sleeps = [], world = ()\<rparr>" None]
  by simp

lemma retry_all_fail:
  assumes fail: "\<And>k w. fst (f k w) \<noteq> None"
  shows "1 \<le> a \<Longrightarrow> a \<le> MaxAttempts r \<Longrightarrow> n = nat (MaxAttempts r - a) \<Longrightarrow> int (calls t) = a - 1 \<Longrightarrow>
         \<exists>t'. ExecuteWithRetry_loop r (observe_sleep sl) (observe f) a d t
                 = (Some (OperationFailed (MaxAttempts r)), t') \<and>
              int (calls t') = MaxAttempts r \<and>
              length (sleeps t') = length (sleeps t) + n"
proof (induction n arbitrary: a d t)
  case 0
  then have a: "a = MaxAttempts r" by simp
  obtain e w1 where f: "f (Suc (calls t)) (world t) = (Some e, w1)"
    using fail [of "Suc (calls t)" "world t"] by (cases "f (Suc (calls t)) (world t)") auto
  show ?case
    using a f "0.prems" by (subst retry_step) simp
next
  case (Suc n)
  then have a: "a < MaxAttempts r" by simp
  obtain e w1 where f: "f (Suc (calls t)) (world t) = (Some e, w1)"
    using fail [of "Suc (calls t)" "world t"] by (cases "f (Suc (calls t)) (world t)") auto
  let ?t = "t\<lparr>calls := Suc (calls t), sleeps := sleeps t @ [d], world := sl d w1\<rparr>"
  have "\<exists>t'. ExecuteWithRetry_loop r (observe_sleep sl) (observe f) (a + 1) (next_delay r d) ?t
                 = (Some (OperationFailed (MaxAttempts r)), t') \<and>
              int (calls t') = MaxAttempts r \<and>
              length (sleeps t') = length (sleeps ?t) + n"
    using Suc.prems a by (intro Suc.IH) simp_all
  moreover have "ExecuteWithRetry_loop r (observe_sleep sl) (observe f) a d t
        = ExecuteWithRetry_loop r (observe_sleep sl) (observe f) (a + 1) (next_delay r d) ?t"
    using a f by (subst retry_step) simp
  ultimately show ?case by auto
qed

lemma retry_succeeds_at:
  assumes ok: "\<And>w. fst (f k w) = None"
  shows "(\<And>j w. Suc (calls t) \<le> j \<Longrightarrow> j < k \<Longrightarrow> fst (f j w) \<noteq> None) \<Longrightarrow>
         int k \<le> MaxAttempts r \<Longrightarrow> calls t < k \<Longrightarrow> n = k - Suc (calls t) \<Longrightarrow> int (calls t) = a - 1 \<Longrightarrow>
         \<exists>t'. ExecuteWithRetry_loop r (observe_sleep sl) (observe f) a d t = (None, t') \<and>
              calls t' = k \<and> length (sleeps t') = length (sleeps t) + n"
proof (induction n arbitrary: a d t)
  case 0
  then have k: "Suc (calls t) = k" by simp
  obtain w1 where f: "f (Suc (calls t)) (world t) = (None, w1)"
    using ok [of "world t"] k by (cases "f (Suc (calls t)) (world t)") auto
  show ?case
    using k f "0.prems" by (subst retry_step) auto
next
  case (Suc n)
  then have k: "Suc (calls t) < k" by simp
  then have "fst (f (Suc (calls t)) (world t)) \<noteq> None"
    by (intro Suc.prems(1)) simp_all
  then obtain e w1 where f: "f (Suc (calls t)) (world t) = (Some e, w1)"
    by (cases "f (Suc (calls t)) (world t)") auto
  let ?t = "t\<lparr>calls := Suc (calls t), sleeps := sleeps t @ [d], world := sl d w1\<rparr>"
  have a: "a < MaxAttempts r"
    using Suc.prems k by linarith
  have "\<exists>t'. ExecuteWithRetry_loop r (observe_sleep sl) (observe f) (a + 1) (next_delay r d) ?t
                 = (None, t') \<and> calls t' = k \<and> length (sleeps t') = length (sleeps ?t) + n"
  proof (rule Suc.IH)
    show "fst (f j w) \<noteq> None" if "Suc (calls ?t) \<le> j" "j < k" for j w
      using that by (intro Suc.prems(1)) simp_all
  qed (use Suc.prems k in simp_all)
  moreover have "ExecuteWithRetry_loop r (observe_sleep sl) (observe f) a d t
        = ExecuteWithRetry_loop r (observe_sleep sl) (observe f) (a + 1) (next_delay r d) ?t"
    using a f by (subst retry_step) simp
  ultimately show ?case by auto
qed

text \<open>
  C3. With \<open>MaxAttempts \<ge> 1\<close>: an operation that fails at every invocation is invoked exactly
  \<open>MaxAttempts\<close> times, with a sleep between two attempts, and \<^verbatim>\<open>ExecuteWithRetry\<close> returns
  \<open>OperationFailed MaxAttempts\<close>, whatever errors the operation returned; an operation whose invocations before the \<open>k\<close>-th fail and
  whose \<open>k\<close>-th succeeds, \<open>1 \<le> k \<le> MaxAttempts\<close>, is invoked exactly \<open>k\<close> times and the result
  is \<^verbatim>\<open>nil\<close>, with \<open>k - 1\<close> sleeps and none after the success.
\<close>

theorem ExecuteWithRetry_attempts:
  assumes "1 \<le> MaxAttempts r"
  shows "((\<forall>j w. fst (f j w) \<noteq> None) \<longrightarrow>
            (\<exists>t'. ExecuteWithRetry r (observe_sleep sl) (observe f) \<lparr>calls = 0, sleeps = [], world = w0\<rparr>
                     = (Some (OperationFailed (MaxAttempts r)), t') \<and>
                  int (calls t') = MaxAttempts r \<and>
                  int (length (sleeps t')) = MaxAttempts r - 1)) \<and>
         (1 \<le> k \<and> int k \<le> MaxAttempts r \<and> (\<forall>j w. 1 \<le> j \<and> j < k \<longrightarrow> fst (f j w) \<noteq> None) \<and>
          (\<forall>w. fst (f k w) = None) \<longrightarrow>
            (\<exists>t'. ExecuteWithRetry r (observe_sleep sl) (observe f) \<lparr>calls = 0, sleeps = [], world = w0\<rparr>
                     = (None, t') \<and>
                  calls t' = k \<and> length (sleeps t') = k - 1))"
proof (intro conjI impI)
  assume "\<forall>j w. fst (f j w) \<noteq> None"
  then have fail: "\<And>j w. fst (f j w) \<noteq> None" by blast
  from retry_all_fail [where f = f and a = 1 and r = r and d = "InitialDelay r" and sl = sl
        and t = "\<lparr>calls = 0, sleeps = [], world = w0\<rparr>", OF fail _ _ refl] assms
  show "\<exists>t'. ExecuteWithRetry r (observe_sleep sl) (observe f) \<lparr>calls = 0, sleeps = [], world = w0\<rparr>
                = (Some (OperationFailed (MaxAttempts r)), t') \<and> int (calls t') = MaxAttempts r \<and>
              int (length (sleeps t')) = MaxAttempts r - 1"
    by (auto simp: ExecuteWithRetry_def)
next
  assume h: "1 \<le> k \<and> int k \<le> MaxAttempts r \<and> (\<forall>j w. 1 \<le> j \<and> j < k \<longrightarrow> fst (f j w) \<noteq> None) \<and>
             (\<forall>w. fst (f k w) = None)"
  then have ok: "\<And>w. fst (f k w) = None" by blast
  have "\<exists>t'. ExecuteWithRetry_loop r (observe_sleep sl) (observe f) 1 (InitialDelay r)
               \<lparr>calls = 0, sleeps = [], world = w0\<rparr> = (None, t') \<and>
             calls t' = k \<and>
             length (sleeps t') = length (sleeps \<lparr>calls = 0, sleeps = [], world = w0\<rparr>) + (k - 1)"
  proof (rule retry_succeeds_at [where f = f and k = k])
    show "fst (f k w) = None" for w
      by (rule ok)
    show "fst (f j w) \<noteq> None"
      if "Suc (calls \<lparr>calls = 0, sleeps = [], world = w0\<rparr>) \<le> j" "j < k" for j w
      using that h by simp
  qed (use h in simp_all)
  then show "\<exists>t'. ExecuteWithRetry r (observe_sleep sl) (observe f) \<lparr>calls = 0, sleeps = [], world = w0\<rparr>
                = (None, t') \<and> calls t' = k \<and> length (sleeps t') = k - 1"
    by (simp add: ExecuteWithRetry_def)
qed

theorem ExecuteWithRetry_attempts_witness:
  "1 \<le> MaxAttempts \<lparr>MaxAttempts = 3, InitialDelay = 10000000, MaxDelay = 100000000, Multiplier = Finite 2\<rparr> \<and>
   (\<exists>t'. ExecuteWithRetry \<lparr>MaxAttempts = 3, InitialDelay = 10000000, MaxDelay = 100000000, Multiplier = Finite 2\<rparr>
            (observe_sleep (\<lambda>d w. w)) (observe (\<lambda>j w. (Some (OtherError ''test error''), w)))
            \<lparr>calls = 0, sleeps = [], world = ()\<rparr>
          = (Some (OperationFailed 3), t') \<and> calls t' = 3) \<and>
   (\<exists>t'. ExecuteWithRetry \<lparr>MaxAttempts = 3, InitialDelay = 10000000, MaxDelay = 100000000, Multiplier = Finite 2\<rparr>
            (observe_sleep (\<lambda>d w. w))
            (observe (\<lambda>j w. (if j = 2 then None else Some (OtherError ''test error''), w)))
            \<lparr>calls = 0, sleeps = [], world = ()\<rparr>
          = (None, t') \<and> calls t' = 2 \<and> length (sleeps t') = 1)"
  using ExecuteWithRetry_attempts [of
          "\<lparr>MaxAttempts = 3, InitialDelay = 10000000, MaxDelay = 100000000, Multiplier = Finite 2\<rparr>"
          "\<lambda>j w. (Some (OtherError ''test error''), w)" "\<lambda>d w. w" "()" 1]
        ExecuteWithRetry_attempts [of
          "\<lparr>MaxAttempts = 3, InitialDelay = 10000000, MaxDelay = 100000000, Multiplier = Finite 2\<rparr>"
          "\<lambda>j w. (if j = 2 then None else Some (OtherError ''test error''), w)" "\<lambda>d w. w" "()" 2]
  by auto

subsection \<open>The delays slept\<close>

lemma retry_sleeps:
  "\<exists>m. sleeps (snd (ExecuteWithRetry_loop r (observe_sleep sl) (observe f) a d t))
         = sleeps t @ delays r d m"
proof (induction "nat (MaxAttempts r - a)" arbitrary: a d t)
  case 0
  have "sleeps (snd (ExecuteWithRetry_loop r (observe_sleep sl) (observe f) a d t)) = sleeps t @ delays r d 0"
    using 0 by (subst retry_step) (simp split: prod.splits option.splits)
  then show ?case by blast
next
  case (Suc n)
  then have a: "a < MaxAttempts r" by simp
  obtain x w1 where f: "f (Suc (calls t)) (world t) = (x, w1)"
    by (cases "f (Suc (calls t)) (world t)")
  show ?case
  proof (cases x)
    case None
    have "sleeps (snd (ExecuteWithRetry_loop r (observe_sleep sl) (observe f) a d t)) = sleeps t @ delays r d 0"
      using a f None by (subst retry_step) simp
    then show ?thesis by blast
  next
    case (Some e)
    let ?t = "t\<lparr>calls := Suc (calls t), sleeps := sleeps t @ [d], world := sl d w1\<rparr>"
    have "n = nat (MaxAttempts r - (a + 1))" using Suc.hyps(2) by simp
    from Suc.hyps(1) [OF this, of "next_delay r d" ?t] obtain m where
      "sleeps (snd (ExecuteWithRetry_loop r (observe_sleep sl) (observe f) (a + 1) (next_delay r d) ?t))
         = sleeps ?t @ delays r (next_delay r d) m" by blast
    moreover have "ExecuteWithRetry_loop r (observe_sleep sl) (observe f) a d t
        = ExecuteWithRetry_loop r (observe_sleep sl) (observe f) (a + 1) (next_delay r d) ?t"
      using a f Some by (subst retry_step) simp
    ultimately have "sleeps (snd (ExecuteWithRetry_loop r (observe_sleep sl) (observe f) a d t))
         = sleeps t @ delays r d (Suc m)" by simp
    then show ?thesis by blast
  qed
qed

lemma retry_callback_sleeps:
  "\<exists>m. sleeps (snd (ExecuteWithRetryAndCallback_loop r (observe_sleep sl) (observe f)
                     (map_option observe_callback g) a d t))
         = sleeps t @ delays r d m"
proof (induction "nat (MaxAttempts r - a)" arbitrary: a d t)
  case 0
  have "sleeps (snd (ExecuteWithRetryAndCallback_loop r (observe_sleep sl) (observe f)
                      (map_option observe_callback g) a d t)) = sleeps t @ delays r d 0"
    using 0 by (subst retry_callback_step) (simp add: Let_def split: prod.splits option.splits)
  then show ?case by blast
next
  case (Suc n)
  then have a: "a < MaxAttempts r" by simp
  obtain x w1 where f: "f (Suc (calls t)) (world t) = (x, w1)"
    by (cases "f (Suc (calls t)) (world t)")
  show ?case
  proof (cases x)
    case None
    have "sleeps (snd (ExecuteWithRetryAndCallback_loop r (observe_sleep sl) (observe f)
                      (map_option observe_callback g) a d t)) = sleeps t @ delays r d 0"
      using a f None by (subst retry_callback_step) simp
    then show ?thesis by blast
  next
    case (Some e)
    let ?w2 = "case g of Some h \<Rightarrow> h a (AttemptFailed a) w1 | None \<Rightarrow> w1"
    let ?t = "t\<lparr>calls := Suc (calls t), sleeps := sleeps t @ [d], world := sl d ?w2\<rparr>"
    have "n = nat (MaxAttempts r - (a + 1))" using Suc.hyps(2) by simp
    from Suc.hyps(1) [OF this, of "next_delay r d" ?t] obtain m where
      "sleeps (snd (ExecuteWithRetryAndCallback_loop r (observe_sleep sl) (observe f)
                      (map_option observe_callback g) (a + 1) (next_delay r d) ?t))
         = sleeps ?t @ delays r (next_delay r d) m" by blast
    moreover have "ExecuteWithRetryAndCallback_loop r (observe_sleep sl) (observe f)
                      (map_option observe_callback g) a d t
        = ExecuteWithRetryAndCallback_loop r (observe_sleep sl) (observe f)
                      (map_option observe_callback g) (a + 1) (next_delay r d) ?t"
      using a f Some by (subst retry_callback_step) (simp add: Let_def)
    ultimately have "sleeps (snd (ExecuteWithRetryAndCallback_loop r (observe_sleep sl) (observe f)
                      (map_option observe_callback g) a d t))
         = sleeps t @ delays r d (Suc m)" by simp
    then show ?thesis by blast
  qed
qed

lemma delays_length: "length (delays r d n) = n"
  by (induction n arbitrary: d) simp_all

lemma delays_nth: "i < n \<Longrightarrow> delays r d n ! i = (next_delay r ^^ i) d"
proof (induction n arbitrary: d i)
  case 0
  then show ?case by simp
next
  case (Suc n)
  show ?case
  proof (cases i)
    case 0
    then show ?thesis by simp
  next
    case (Suc j)
    with Suc.prems have "j < n" by simp
    from Suc.IH [OF this, of "next_delay r d"] Suc show ?thesis
      by (simp add: funpow_swap1)
  qed
qed

lemma round_half_even_int: "round_half_even (of_int a) = a"
  by (simp add: round_half_even_def)

lemma float64_quantum_dyadic:
  assumes m: "\<bar>m\<bar> < 2 ^ 53" and j: "j \<le> 1074"
  shows "float64_quantum (of_int m / 2 ^ j) \<le> - int j"
proof -
  let ?n = "\<bar>m\<bar> * 2 ^ (1074 - j)"
  have "\<bar>real_of_int m / 2 ^ j\<bar> * 2 ^ 1074 = real_of_int \<bar>m\<bar> * (2 ^ 1074 / 2 ^ j)"
    by (simp add: abs_divide)
  also have "(2::real) ^ 1074 / 2 ^ j = 2 ^ (1074 - j)"
    using j by (simp add: power_diff)
  finally have "\<bar>real_of_int m / 2 ^ j\<bar> * 2 ^ 1074 = of_int ?n"
    by simp
  then have n: "\<lfloor>\<bar>real_of_int m / 2 ^ j\<bar> * 2 ^ 1074\<rfloor> = ?n"
    by (simp only: floor_of_int)
  have "?n < 2 ^ 53 * 2 ^ (1074 - j)"
    using m by (intro mult_strict_right_mono) simp_all
  also have "\<dots> = 2 ^ (53 + (1074 - j))"
    by (simp only: power_add)
  also have "53 + (1074 - j) = 1127 - j"
    using j by simp
  finally have "?n < 2 ^ nat (int (1127 - j))" by simp
  then have "bitlen ?n \<le> int (1127 - j)"
    by (simp only: bitlen_le_iff_power) simp
  then show ?thesis
    unfolding float64_quantum_def n using j by simp
qed

lemma round_float64_dyadic:
  assumes m: "\<bar>m\<bar> < 2 ^ 53" and j: "j \<le> 1074"
  shows "round_float64 (of_int m / 2 ^ j) = of_int m / 2 ^ j"
proof -
  let ?x = "real_of_int m / 2 ^ j"
  define z where "z = float64_quantum ?x"
  define s where "s = nat (- z)"
  from float64_quantum_dyadic [OF m j] have z: "z \<le> - int j"
    by (simp add: z_def)
  then have nz: "nat z = 0" and sj: "j \<le> s"
    by (simp_all add: s_def)
  have "?x * 2 ^ s = real_of_int m * (2 ^ s / 2 ^ j)"
    by simp
  also have "(2::real) ^ s / 2 ^ j = 2 ^ (s - j)"
    using sj by (simp add: power_diff)
  finally have "?x * 2 ^ s = of_int (m * 2 ^ (s - j))"
    by simp
  then have "round_half_even (?x * 2 ^ s) = m * 2 ^ (s - j)"
    by (simp only: round_half_even_int)
  then have "round_float64 ?x = of_int (m * 2 ^ (s - j)) / 2 ^ s"
    by (simp add: round_float64_def Let_def nz flip: z_def s_def)
  also have "\<dots> = real_of_int m * (2 ^ (s - j) / 2 ^ s)"
    by simp
  also have "(2::real) ^ (s - j) / 2 ^ s = 1 / 2 ^ j"
  proof -
    have "(2::real) ^ s = 2 ^ (s - j) * 2 ^ j"
      using sj by (simp flip: power_add)
    then show ?thesis by simp
  qed
  finally show ?thesis by simp
qed

lemma round_float64_int: "\<bar>m\<bar> < 2 ^ 53 \<Longrightarrow> round_float64 (of_int m) = of_int m"
  using round_float64_dyadic [of m 0] by simp

lemma trunc_int: "trunc (of_int a) = a"
  by (simp add: trunc_def)

lemma scale_delay_whole:
  assumes "\<bar>d\<bar> < 2 ^ 53" "\<bar>d * k\<bar> < 2 ^ 53"
  shows "scale_delay d (Finite (of_int k)) = d * k"
proof -
  have "round_float64 (round_float64 (real_of_int d) * of_int k) = round_float64 (of_int (d * k))"
    by (simp add: round_float64_int [OF assms(1)])
  also have "\<dots> = of_int (d * k)"
    by (rule round_float64_int [OF assms(2)])
  finally have p: "round_float64 (round_float64 (real_of_int d) * of_int k) = of_int (d * k)" .
  have "- (2 ^ 63) \<le> d * k \<and> d * k < 2 ^ 63"
    using assms(2) by (simp add: abs_less_iff)
  then have "- (2 ^ 63) \<le> real_of_int (d * k) \<and> real_of_int (d * k) < 2 ^ 63"
    by (metis of_int_le_iff of_int_less_iff of_int_minus of_int_numeral of_int_power)
  moreover have "trunc (real_of_int (d * k)) = d * k"
    by (rule trunc_int)
  ultimately show ?thesis
    unfolding scale_delay_def float64.case Let_def p by (simp del: of_int_mult)
qed

lemma float64_small_fits_int64:
  fixes x :: real
  shows "\<bar>x\<bar> < 2 ^ 53 \<Longrightarrow> - (2 ^ 63) \<le> x \<and> x < 2 ^ 63"
  by (simp add: abs_less_iff)

lemma scale_delay_dyadic:
  assumes d: "\<bar>d\<bar> < 2 ^ 53" and dm: "\<bar>d * m\<bar> < 2 ^ 53" and j: "j \<le> 1074"
  shows "scale_delay d (Finite (of_int m / 2 ^ j)) = trunc (real_of_int d * (of_int m / 2 ^ j))"
proof -
  let ?p = "real_of_int (d * m) / 2 ^ j"
  have e: "real_of_int d * (of_int m / 2 ^ j) = ?p"
    by simp
  have "round_float64 (round_float64 (real_of_int d) * (of_int m / 2 ^ j)) = round_float64 ?p"
    by (simp add: round_float64_int [OF d])
  also have "\<dots> = ?p"
    by (rule round_float64_dyadic [OF dm j])
  finally have p: "round_float64 (round_float64 (real_of_int d) * (of_int m / 2 ^ j)) = ?p" .
  have "\<bar>?p\<bar> = real_of_int \<bar>d * m\<bar> / 2 ^ j"
    by (simp add: abs_divide del: of_int_mult)
  also have "\<dots> \<le> real_of_int \<bar>d * m\<bar> / 1"
    by (intro divide_left_mono) simp_all
  also have "\<dots> < real_of_int (2 ^ 53)"
    using dm by (simp only: div_by_1 of_int_less_iff)
  finally have "\<bar>?p\<bar> < 2 ^ 53"
    by (simp only: of_int_power of_int_numeral)
  then have "- (2 ^ 63) \<le> ?p \<and> ?p < 2 ^ 63"
    by (rule float64_small_fits_int64)
  then show ?thesis
    unfolding scale_delay_def float64.case Let_def p e by (simp del: of_int_mult)
qed

lemma scale_delay_three_halves: "scale_delay 1 (Finite (3 / 2)) = 1"
proof -
  have a: "round_float64 1 = 1"
    using round_float64_int [of 1] by simp
  have b: "round_float64 (3 / 2) = 3 / 2"
    using round_float64_dyadic [of 3 1] by simp
  show ?thesis
    by (simp add: scale_delay_def a b trunc_def Let_def)
qed

lemma float64_quantum_binade:
  fixes e :: nat
  assumes lo: "2 ^ e \<le> \<bar>x\<bar>" and hi: "\<bar>x\<bar> < 2 ^ Suc e"
  shows "float64_quantum x = int e - 52"
proof -
  define n where "n = \<lfloor>\<bar>x\<bar> * 2 ^ 1074\<rfloor>"
  have "(2::real) ^ (e + 1074) = 2 ^ e * 2 ^ 1074"
    by (rule power_add)
  also have "\<dots> \<le> \<bar>x\<bar> * 2 ^ 1074"
    using lo by (rule mult_right_mono) simp
  finally have "real_of_int (2 ^ (e + 1074)) \<le> \<bar>x\<bar> * 2 ^ 1074"
    by (simp only: of_int_power of_int_numeral)
  then have l: "2 ^ (e + 1074) \<le> n"
    unfolding n_def by (simp only: le_floor_iff)
  have "\<bar>x\<bar> * 2 ^ 1074 < 2 ^ Suc e * 2 ^ 1074"
    using hi by (rule mult_strict_right_mono) simp
  also have "\<dots> = (2::real) ^ (Suc e + 1074)"
    by (rule power_add [symmetric])
  finally have "\<bar>x\<bar> * 2 ^ 1074 < real_of_int (2 ^ (Suc e + 1074))"
    by (simp only: of_int_power of_int_numeral)
  then have h: "n < 2 ^ (Suc e + 1074)"
    unfolding n_def by (simp only: floor_less_iff)
  have "0 \<le> int (Suc e + 1074) \<and> n < 2 ^ nat (int (Suc e + 1074))"
    using h by (simp only: nat_int of_nat_0_le_iff simp_thms)
  then have up: "bitlen n \<le> int (Suc e + 1074)"
    by (simp only: bitlen_le_iff_power)
  have "2 ^ (nat (int (Suc e + 1074)) - 1) \<le> n"
    using l by (simp only: nat_int add_Suc diff_Suc_1)
  then have "int (Suc e + 1074) \<le> bitlen n"
    by (simp only: bitlen_ge_iff_power simp_thms)
  with up have "bitlen n = int e + 1075" by simp
  then show ?thesis
    unfolding float64_quantum_def n_def [symmetric] by simp
qed

lemma round_float64_eval:
  "float64_quantum x = z \<Longrightarrow> round_half_even (x * 2 ^ nat (- z) / 2 ^ nat z) = a \<Longrightarrow>
   round_float64 x = of_int a * 2 ^ nat z / 2 ^ nat (- z)"
  by (simp add: round_float64_def Let_def)

text \<open>
  Two products that float64 does not compute exactly: the product of 10 and the float64
  nearest 1.7 is rounded up to 17, and \<open>2^53 + 1\<close> is rounded to \<open>2^53\<close> on its way to float64.
\<close>

lemma scale_delay_rounds_product:
  "scale_delay 10 (Finite (7656119366529843 / 4503599627370496)) = 17"
proof -
  let ?p = "38280596832649215 / 2251799813685248 :: real"
  have a: "round_float64 10 = 10"
    using round_float64_int [of 10] by simp
  have z: "float64_quantum ?p = - 48"
    using float64_quantum_binade [of 4 ?p] by simp
  have r: "round_half_even (?p * 2 ^ nat (- (- 48)) / 2 ^ nat (- 48)) = 4785074604081152"
    by (simp add: round_half_even_def Let_def)
  have b: "round_float64 ?p = 17"
    using round_float64_eval [OF z r] by simp
  have "round_float64 (round_float64 (real_of_int 10) * (7656119366529843 / 4503599627370496)) = 17"
    using b by (simp add: a)
  then show ?thesis
    by (simp add: scale_delay_def trunc_def Let_def)
qed

lemma scale_delay_rounds_operand:
  "scale_delay (2 ^ 53 + 1) (Finite 1) = 2 ^ 53"
proof -
  let ?x = "9007199254740993 :: real"
  have z: "float64_quantum ?x = 1"
    using float64_quantum_binade [of 53 ?x] by simp
  have r: "round_half_even (?x * 2 ^ nat (- 1) / 2 ^ nat 1) = 4503599627370496"
    by (simp add: round_half_even_def Let_def)
  have a: "round_float64 ?x = 9007199254740992"
    using round_float64_eval [OF z r] by simp
  let ?y = "9007199254740992 :: real"
  have zz: "float64_quantum ?y = 1"
    using float64_quantum_binade [of 53 ?y] by simp
  have rr: "round_half_even (?y * 2 ^ nat (- 1) / 2 ^ nat 1) = 4503599627370496"
    by (simp add: round_half_even_def Let_def)
  have b: "round_float64 ?y = 9007199254740992"
    using round_float64_eval [OF zz rr] by simp
  have "round_float64 (round_float64 (real_of_int (2 ^ 53 + 1)) * 1) = 9007199254740992"
    by (simp add: a b)
  then show ?thesis
    by (simp add: scale_delay_def trunc_def Let_def)
qed

lemma next_delay_le: "next_delay r d \<le> MaxDelay r"
  by (simp add: next_delay_def Let_def)

lemma next_delay_whole:
  assumes k: "Multiplier r = Finite (of_int k)" and k1: "1 \<le> k"
    and d0: "0 \<le> d" and dm: "d \<le> MaxDelay r" and b: "MaxDelay r * k < 2 ^ 53"
  shows "next_delay r d = min (d * k) (MaxDelay r)"
proof -
  have "d * k \<le> MaxDelay r * k"
    using dm k1 by (intro mult_right_mono) simp_all
  with b have dk: "d * k < 2 ^ 53" by linarith
  have "d * 1 \<le> d * k"
    using d0 k1 by (intro mult_left_mono) simp_all
  with dk have d: "d < 2 ^ 53" by simp
  have "0 \<le> d * k" using d0 k1 by simp
  with dk d d0 have "\<bar>d\<bar> < 2 ^ 53" "\<bar>d * k\<bar> < 2 ^ 53" by simp_all
  from scale_delay_whole [OF this] show ?thesis
    by (simp add: next_delay_def Let_def k min_def)
qed

lemma backoff_le: "d \<le> MaxDelay r \<Longrightarrow> (next_delay r ^^ i) d \<le> MaxDelay r"
  by (cases i) (simp_all add: next_delay_le)

lemma backoff_whole:
  assumes k: "Multiplier r = Finite (of_int k)" and k1: "1 \<le> k"
    and d0: "0 \<le> d" and dm: "d \<le> MaxDelay r" and b: "MaxDelay r * k < 2 ^ 53"
  shows "(next_delay r ^^ i) d = min (d * k ^ i) (MaxDelay r)"
proof (induction i)
  case 0
  from dm show ?case by simp
next
  case (Suc i)
  have kp: "1 \<le> k ^ i" using k1 by simp
  have mpos: "0 \<le> MaxDelay r" using d0 dm by linarith
  have x0: "0 \<le> min (d * k ^ i) (MaxDelay r)"
    using d0 kp mpos by simp
  have "(next_delay r ^^ Suc i) d = next_delay r ((next_delay r ^^ i) d)"
    by simp
  also have "\<dots> = next_delay r (min (d * k ^ i) (MaxDelay r))"
    by (simp only: Suc)
  also have "\<dots> = min (min (d * k ^ i) (MaxDelay r) * k) (MaxDelay r)"
    by (rule next_delay_whole [OF k k1 x0 _ b]) simp
  finally have step:
    "(next_delay r ^^ Suc i) d = min (min (d * k ^ i) (MaxDelay r) * k) (MaxDelay r)" .
  show ?case
  proof (cases "d * k ^ i \<le> MaxDelay r")
    case True
    then show ?thesis unfolding step by (simp add: ac_simps)
  next
    case False
    then have big: "MaxDelay r < d * k ^ i" by simp
    have "MaxDelay r * 1 \<le> MaxDelay r * k"
      using mpos k1 by (intro mult_left_mono) simp_all
    then have l: "min (min (d * k ^ i) (MaxDelay r) * k) (MaxDelay r) = MaxDelay r"
      using big by simp
    have "d * k ^ i * 1 \<le> d * k ^ i * k"
      using big mpos k1 by (intro mult_left_mono) simp_all
    then have "MaxDelay r < d * k ^ Suc i" using big by (simp add: ac_simps)
    then show ?thesis unfolding step l by simp
  qed
qed

lemma backoff_whole_grows:
  assumes k: "Multiplier r = Finite (of_int k)" and k1: "1 \<le> k"
    and d0: "0 \<le> d" and dm: "d \<le> MaxDelay r" and b: "MaxDelay r * k < 2 ^ 53"
  shows "(next_delay r ^^ i) d \<le> (next_delay r ^^ Suc i) d"
proof -
  let ?x = "(next_delay r ^^ i) d"
  have x: "?x = min (d * k ^ i) (MaxDelay r)"
    by (rule backoff_whole [OF assms])
  have kp: "1 \<le> k ^ i" using k1 by simp
  have x0: "0 \<le> ?x"
    unfolding x using d0 dm kp by simp
  have xm: "?x \<le> MaxDelay r"
    by (rule backoff_le [OF dm])
  have "?x * 1 \<le> ?x * k"
    using x0 k1 by (intro mult_left_mono) simp_all
  with xm have "?x \<le> min (?x * k) (MaxDelay r)" by simp
  also have "\<dots> = next_delay r ?x"
    by (rule next_delay_whole [OF k k1 x0 xm b, symmetric])
  finally show ?thesis by simp
qed

lemma retry_sleeps_nth:
  assumes ds: "ds = sleeps (snd (ExecuteWithRetry r (observe_sleep sl) (observe f)
                                  \<lparr>calls = 0, sleeps = [], world = w0\<rparr>)) \<or>
               ds = sleeps (snd (ExecuteWithRetryAndCallback r (observe_sleep sl) (observe f)
                                  (map_option observe_callback g)
                                  \<lparr>calls = 0, sleeps = [], world = w0\<rparr>))"
    and i: "i < length ds"
  shows "ds ! i = (next_delay r ^^ i) (InitialDelay r)"
proof -
  from ds obtain m where "ds = delays r (InitialDelay r) m"
    using retry_sleeps [of r sl f 1 "InitialDelay r" "\<lparr>calls = 0, sleeps = [], world = w0\<rparr>"]
      retry_callback_sleeps [of r sl f g 1 "InitialDelay r" "\<lparr>calls = 0, sleeps = [], world = w0\<rparr>"]
    by (auto simp: ExecuteWithRetry_def ExecuteWithRetryAndCallback_def)
  with i show ?thesis by (simp add: delays_length delays_nth)
qed

text \<open>
  C4 (as amended). In both functions the \<open>i\<close>-th sleep (counting from 0) lasts \<open>InitialDelay\<close>
  with \<open>next_delay\<close> applied \<open>i\<close> times: the first lasts \<open>InitialDelay\<close>, each later one the
  float64 product of the one before and the multiplier, cut to whole nanoseconds and capped,
  so that none after the first exceeds \<open>MaxDelay\<close>. When the multiplier is a binary fraction
  \<open>m / 2^j\<close> and a delay \<open>d\<close> and \<open>d * m\<close> stay below \<open>2^53\<close>, float64 multiplies exactly and the
  next delay is \<open>min (trunc (d * Multiplier)) MaxDelay\<close>. When the multiplier is a whole number
  \<open>k \<ge> 1\<close>, \<open>0 \<le> InitialDelay \<le> MaxDelay\<close> and \<open>MaxDelay * k < 2^53\<close>, the \<open>i\<close>-th delay is
  \<open>min (InitialDelay * k ^ i) MaxDelay\<close>; the delays then never decrease and never exceed
  \<open>MaxDelay\<close>.
\<close>

theorem retry_delay_sequence:
  assumes ds: "ds = sleeps (snd (ExecuteWithRetry r (observe_sleep sl) (observe f)
                                  \<lparr>calls = 0, sleeps = [], world = w0\<rparr>)) \<or>
               ds = sleeps (snd (ExecuteWithRetryAndCallback r (observe_sleep sl) (observe f)
                                  (map_option observe_callback g)
                                  \<lparr>calls = 0, sleeps = [], world = w0\<rparr>))"
    and i: "i < length ds"
  shows "ds ! i = (next_delay r ^^ i) (InitialDelay r) \<and>
         (0 < i \<longrightarrow> ds ! i \<le> MaxDelay r) \<and>
         (Suc i < length ds \<and> Multiplier r = Finite (of_int m / 2 ^ j) \<and> j \<le> 1074 \<and>
          \<bar>ds ! i\<bar> < 2 ^ 53 \<and> \<bar>ds ! i * m\<bar> < 2 ^ 53 \<longrightarrow>
            ds ! Suc i = min (trunc (real_of_int (ds ! i) * (of_int m / 2 ^ j))) (MaxDelay r)) \<and>
         (Multiplier r = Finite (of_int k) \<and> 1 \<le> k \<and> 0 \<le> InitialDelay r \<and>
          InitialDelay r \<le> MaxDelay r \<and> MaxDelay r * k < 2 ^ 53 \<longrightarrow>
            ds ! i = min (InitialDelay r * k ^ i) (MaxDelay r) \<and>
            ds ! i \<le> MaxDelay r \<and>
            (Suc i < length ds \<longrightarrow> ds ! i \<le> ds ! Suc i))"
proof (intro conjI impI)
  show nth: "ds ! i = (next_delay r ^^ i) (InitialDelay r)"
    by (rule retry_sleeps_nth [OF ds i])
  show "ds ! i \<le> MaxDelay r" if "0 < i"
    using that unfolding nth by (cases i) (simp_all add: next_delay_le)
  {
    assume h: "Suc i < length ds \<and> Multiplier r = Finite (of_int m / 2 ^ j) \<and> j \<le> 1074 \<and>
               \<bar>ds ! i\<bar> < 2 ^ 53 \<and> \<bar>ds ! i * m\<bar> < 2 ^ 53"
    then have "ds ! Suc i = next_delay r (ds ! i)"
      using retry_sleeps_nth [OF ds, of "Suc i"] by (simp add: nth)
    also have "\<dots> = min (scale_delay (ds ! i) (Finite (of_int m / 2 ^ j))) (MaxDelay r)"
      using h by (simp add: next_delay_def Let_def min_def)
    also have "scale_delay (ds ! i) (Finite (of_int m / 2 ^ j))
                 = trunc (real_of_int (ds ! i) * (of_int m / 2 ^ j))"
      using h by (intro scale_delay_dyadic) simp_all
    finally show "ds ! Suc i = min (trunc (real_of_int (ds ! i) * (of_int m / 2 ^ j))) (MaxDelay r)" .
  }
  {
    assume h: "Multiplier r = Finite (of_int k) \<and> 1 \<le> k \<and> 0 \<le> InitialDelay r \<and>
               InitialDelay r \<le> MaxDelay r \<and> MaxDelay r * k < 2 ^ 53"
    then have k: "Multiplier r = Finite (of_int k)" and k1: "1 \<le> k"
      and nonneg: "0 \<le> InitialDelay r" and le: "InitialDelay r \<le> MaxDelay r"
      and b: "MaxDelay r * k < 2 ^ 53"
      by simp_all
    show "ds ! i = min (InitialDelay r * k ^ i) (MaxDelay r)"
      unfolding nth by (rule backoff_whole [OF k k1 nonneg le b])
    show "ds ! i \<le> MaxDelay r"
      unfolding nth by (rule backoff_le [OF le])
    show "ds ! i \<le> ds ! Suc i" if "Suc i < length ds"
      using backoff_whole_grows [OF k k1 nonneg le b, of i] retry_sleeps_nth [OF ds that]
      by (simp add: nth)
  }
qed

lemma scale_delay_double:
  "0 \<le> d \<Longrightarrow> d * 2 < 2 ^ 53 \<Longrightarrow> scale_delay d (Finite 2) = d * 2"
  using scale_delay_whole [of d 2] by simp

lemma delay_test_run:
  "sleeps (snd (ExecuteWithRetry
       \<lparr>MaxAttempts = 5, InitialDelay = 10000000, MaxDelay = 50000000, Multiplier = Finite 2\<rparr>
       (observe_sleep (\<lambda>d w. w)) (observe (\<lambda>k w. (Some (OtherError ''test error''), w)))
       \<lparr>calls = 0, sleeps = [], world = ()\<rparr>))
   = [10000000, 20000000, 40000000, 50000000]"
  by (simp add: ExecuteWithRetry_def retry_step next_delay_def scale_delay_double Let_def)

lemma truncation_test_run:
  "sleeps (snd (ExecuteWithRetry
       \<lparr>MaxAttempts = 4, InitialDelay = 1, MaxDelay = 100, Multiplier = Finite (3 / 2)\<rparr>
       (observe_sleep (\<lambda>d w. w)) (observe (\<lambda>k w. (Some (OtherError ''test error''), w)))
       \<lparr>calls = 0, sleeps = [], world = ()\<rparr>))
   = [1, 1, 1]"
  by (simp add: ExecuteWithRetry_def retry_step next_delay_def scale_delay_three_halves Let_def)

theorem retry_delay_sequence_witness:
  "Multiplier \<lparr>MaxAttempts = 5, InitialDelay = 10000000, MaxDelay = 50000000, Multiplier = Finite 2\<rparr>
     = Finite (of_int 2) \<and>
   MaxDelay \<lparr>MaxAttempts = 5, InitialDelay = 10000000, MaxDelay = 50000000, Multiplier = Finite 2\<rparr> * 2
     < 2 ^ 53 \<and>
   sleeps (snd (ExecuteWithRetry
       \<lparr>MaxAttempts = 5, InitialDelay = 10000000, MaxDelay = 50000000, Multiplier = Finite 2\<rparr>
       (observe_sleep (\<lambda>d w. w)) (observe (\<lambda>k w. (Some (OtherError ''test error''), w)))
       \<lparr>calls = 0, sleeps = [], world = ()\<rparr>))
     = [10000000, 20000000, 40000000, 50000000] \<and>
   [10000000, 20000000, 40000000, 50000000 :: int] ! 2 = min (10000000 * 2 ^ 2) 50000000 \<and>
   [10000000, 20000000, 40000000, 50000000 :: int] ! 2 \<le> [10000000, 20000000, 40000000, 50000000] ! 3 \<and>
   [10000000, 20000000, 40000000, 50000000 :: int] ! 3 = min (10000000 * 2 ^ 3) 50000000 \<and>
   [10000000, 20000000, 40000000, 50000000 :: int] ! 3 \<le> 50000000 \<and>
   Multiplier \<lparr>MaxAttempts = 4, InitialDelay = 1, MaxDelay = 100, Multiplier = Finite (3 / 2)\<rparr>
     = Finite (of_int 3 / 2 ^ 1) \<and>
   sleeps (snd (ExecuteWithRetry
       \<lparr>MaxAttempts = 4, InitialDelay = 1, MaxDelay = 100, Multiplier = Finite (3 / 2)\<rparr>
       (observe_sleep (\<lambda>d w. w)) (observe (\<lambda>k w. (Some (OtherError ''test error''), w)))
       \<lparr>calls = 0, sleeps = [], world = ()\<rparr>))
     = [1, 1, 1] \<and>
   [1, 1, 1 :: int] ! 2 = min (trunc (real_of_int ([1, 1, 1] ! 1) * (of_int 3 / 2 ^ 1))) 100"
proof -
  let ?r = "\<lparr>MaxAttempts = 5, InitialDelay = 10000000, MaxDelay = 50000000, Multiplier = Finite 2\<rparr>"
  let ?ds = "[10000000, 20000000, 40000000, 50000000 :: int]"
  let ?q = "\<lparr>MaxAttempts = 4, InitialDelay = 1, MaxDelay = 100, Multiplier = Finite (3 / 2)\<rparr>"
  let ?es = "[1, 1, 1 :: int]"
  let ?f = "\<lambda>(k::nat) (w::unit). (Some (OtherError ''test error''), w)"
  have ds: "?ds = sleeps (snd (ExecuteWithRetry ?r (observe_sleep (\<lambda>d w. w)) (observe ?f)
                                 \<lparr>calls = 0, sleeps = [], world = ()\<rparr>)) \<or>
            ?ds = sleeps (snd (ExecuteWithRetryAndCallback ?r (observe_sleep (\<lambda>d w. w)) (observe ?f)
                                 (map_option observe_callback None)
                                 \<lparr>calls = 0, sleeps = [], world = ()\<rparr>))"
    by (simp only: delay_test_run simp_thms)
  have es: "?es = sleeps (snd (ExecuteWithRetry ?q (observe_sleep (\<lambda>d w. w)) (observe ?f)
                                 \<lparr>calls = 0, sleeps = [], world = ()\<rparr>)) \<or>
            ?es = sleeps (snd (ExecuteWithRetryAndCallback ?q (observe_sleep (\<lambda>d w. w)) (observe ?f)
                                 (map_option observe_callback None)
                                 \<lparr>calls = 0, sleeps = [], world = ()\<rparr>))"
    by (simp only: truncation_test_run simp_thms)
  have whole: "Multiplier ?r = Finite (of_int 2) \<and> 1 \<le> (2::int) \<and> 0 \<le> InitialDelay ?r \<and>
               InitialDelay ?r \<le> MaxDelay ?r \<and> MaxDelay ?r * 2 < 2 ^ 53"
    by simp
  have frac: "Suc 1 < length ?es \<and> Multiplier ?q = Finite (of_int 3 / 2 ^ 1) \<and> (1::nat) \<le> 1074 \<and>
              \<bar>?es ! 1\<bar> < 2 ^ 53 \<and> \<bar>?es ! 1 * 3\<bar> < 2 ^ 53"
    by simp
  from retry_delay_sequence [where ds = ?ds and r = ?r and i = 2 and k = 2, OF ds] whole
  have a: "?ds ! 2 = min (InitialDelay ?r * 2 ^ 2) (MaxDelay ?r) \<and> ?ds ! 2 \<le> ?ds ! Suc 2"
    by simp
  from retry_delay_sequence [where ds = ?ds and r = ?r and i = 3 and k = 2, OF ds] whole
  have b: "?ds ! 3 = min (InitialDelay ?r * 2 ^ 3) (MaxDelay ?r) \<and> ?ds ! 3 \<le> MaxDelay ?r"
    by simp
  from retry_delay_sequence [where ds = ?es and r = ?q and i = 1 and m = 3 and j = 1, OF es] frac
  have c: "?es ! Suc 1 = min (trunc (real_of_int (?es ! 1) * (of_int 3 / 2 ^ 1))) (MaxDelay ?q)"
    by simp
  from a b c delay_test_run truncation_test_run show ?thesis
    by (simp add: numeral_2_eq_2 numeral_3_eq_3)
qed

text \<open>
  C4 as stated fails on two inputs. With \<open>InitialDelay\<close> = 1ns and multiplier 1.5 every product
  is 1.5, cut back to 1ns, so all delays are 1ns, while \<open>min (InitialDelay * Multiplier ^ 2)
  MaxDelay\<close> is 2.25ns. With \<open>InitialDelay\<close> = 2s above \<open>MaxDelay\<close> = 1s the first sleep, in either
  function, lasts 2s: more than \<open>MaxDelay\<close>, and not \<open>min (InitialDelay * Multiplier ^ 0)
  MaxDelay\<close>.
\<close>

theorem retry_delay_formula_fails:
  "1 \<le> MaxAttempts \<lparr>MaxAttempts = 4, InitialDelay = 1, MaxDelay = 100, Multiplier = Finite (3 / 2)\<rparr> \<and>
   (1 :: real) \<le> 3 / 2 \<and>
   sleeps (snd (ExecuteWithRetry
       \<lparr>MaxAttempts = 4, InitialDelay = 1, MaxDelay = 100, Multiplier = Finite (3 / 2)\<rparr>
       (observe_sleep (\<lambda>d w. w)) (observe (\<lambda>k w. (Some (OtherError ''test error''), w)))
       \<lparr>calls = 0, sleeps = [], world = ()\<rparr>))
     = [1, 1, 1] \<and>
   real_of_int ([1, 1, 1] ! 2) \<noteq> min (real_of_int 1 * (3 / 2) ^ 2) (real_of_int 100) \<and>
   1 \<le> MaxAttempts \<lparr>MaxAttempts = 2, InitialDelay = 2000000000, MaxDelay = 1000000000, Multiplier = Finite 2\<rparr> \<and>
   (1 :: real) \<le> 2 \<and>
   sleeps (snd (ExecuteWithRetry
       \<lparr>MaxAttempts = 2, InitialDelay = 2000000000, MaxDelay = 1000000000, Multiplier = Finite 2\<rparr>
       (observe_sleep (\<lambda>d w. w)) (observe (\<lambda>k w. (Some (OtherError ''test error''), w)))
       \<lparr>calls = 0, sleeps = [], world = ()\<rparr>))
     = [2000000000] \<and>
   sleeps (snd (ExecuteWithRetryAndCallback
       \<lparr>MaxAttempts = 2, InitialDelay = 2000000000, MaxDelay = 1000000000, Multiplier = Finite 2\<rparr>
       (observe_sleep (\<lambda>d w. w)) (observe (\<lambda>k w. (Some (OtherError ''test error''), w)))
       (map_option observe_callback None)
       \<lparr>calls = 0, sleeps = [], world = ()\<rparr>))
     = [2000000000] \<and>
   \<not> (2000000000 :: int) \<le> MaxDelay \<lparr>MaxAttempts = 2, InitialDelay = 2000000000, MaxDelay = 1000000000, Multiplier = Finite 2\<rparr> \<and>
   real_of_int 2000000000 \<noteq> min (real_of_int 2000000000 * 2 ^ 0) (real_of_int 1000000000)"
  by (simp add: ExecuteWithRetry_def ExecuteWithRetryAndCallback_def retry_step retry_callback_step
        next_delay_def scale_delay_three_halves Let_def power2_eq_square
        del: map_option_eq_Some option.map)

subsection \<open>The circuit breaker\<close>

lemma wrap_int_id: "- (2 ^ 63) \<le> x \<Longrightarrow> x < 2 ^ 63 \<Longrightarrow> wrap_int x = x"
  by (simp add: wrap_int_def)

lemma Execute_rejects:
  "state cb = Open \<Longrightarrow> Since (now w) (lastFailureTime cb) < timeout cb \<Longrightarrow>
   Execute now cb operation w = (Some CircuitOpen, cb, w)"
  by (simp add: Execute_def)

lemma Execute_runs:
  "\<not> (state cb = Open \<and> Since (now w) (lastFailureTime cb) < timeout cb) \<Longrightarrow>
   operation w = (err, w1) \<Longrightarrow>
   Execute now cb operation w =
     (err,
      (case err of
         Some e \<Rightarrow> recordFailure (now w1) (if state cb = Open then cb\<lparr>state := HalfOpen\<rparr> else cb)
       | None \<Rightarrow> recordSuccess (if state cb = Open then cb\<lparr>state := HalfOpen\<rparr> else cb)),
      w1)"
  by (cases err) (auto simp: Execute_def Let_def)

lemma after_calls_snoc:
  "after_calls now cb (cs @ [c]) = apply_call now (after_calls now cb cs) c"
  by (simp add: after_calls_def)

lemma apply_call_config:
  "failureThreshold (apply_call now cb c) = failureThreshold cb \<and>
   timeout (apply_call now cb c) = timeout cb"
proof (cases c)
  case (ExecuteCall operation w)
  obtain err w1 where op: "operation w = (err, w1)" by (cases "operation w")
  show ?thesis
    using ExecuteCall op
    by (cases err)
       (auto simp: Execute_def recordFailure_def recordSuccess_def Let_def)
next
  case ResetCall
  then show ?thesis by (simp add: Reset_def)
qed

lemma after_calls_config:
  "failureThreshold (after_calls now cb cs) = failureThreshold cb \<and>
   timeout (after_calls now cb cs) = timeout cb"
  by (induction cs rule: rev_induct) (simp_all add: after_calls_def apply_call_config)

lemma failing_call_closed:
  assumes "failing_call c" "state cb = Closed" "0 \<le> failures cb" "failures cb < 2 ^ 63 - 1"
  shows "failures (apply_call now cb c) = failures cb + 1 \<and>
         state (apply_call now cb c)
           = (if failureThreshold cb \<le> failures cb + 1 then Open else Closed)"
proof (cases c)
  case (ExecuteCall operation w)
  with assms(1) obtain e w1 where op: "operation w = (Some e, w1)"
    by (cases "operation w") auto
  have w: "wrap_int (failures cb + 1) = failures cb + 1"
    using assms(3,4) by (intro wrap_int_id) simp_all
  show ?thesis
    using ExecuteCall op assms(2) w by (simp add: Execute_def recordFailure_def Let_def)
next
  case ResetCall
  with assms(1) show ?thesis by simp
qed

lemma failing_calls_closed:
  assumes "state cb = Closed" "failures cb = 0" "failureThreshold cb \<le> 2 ^ 63 - 1"
  shows "\<forall>c\<in>set cs. failing_call c \<Longrightarrow> int (length cs) \<le> failureThreshold cb \<Longrightarrow>
         failures (after_calls now cb cs) = int (length cs) \<and>
         state (after_calls now cb cs)
           = (if cs \<noteq> [] \<and> int (length cs) = failureThreshold cb then Open else Closed)"
proof (induction cs rule: rev_induct)
  case Nil
  from assms show ?case by (simp add: after_calls_def)
next
  case (snoc c cs)
  let ?cb = "after_calls now cb cs"
  from snoc have f: "failures ?cb = int (length cs)" and s: "state ?cb = Closed"
    and len: "int (length cs) < failureThreshold cb"
    by simp_all
  have thr: "failureThreshold ?cb = failureThreshold cb"
    by (simp add: after_calls_config)
  from snoc.prems have c: "failing_call c" by simp
  have "failures ?cb < 2 ^ 63 - 1" using f len assms(3) by linarith
  from failing_call_closed [OF c s _ this, of now] f thr len
  show ?case by (simp add: after_calls_snoc)
qed

text \<open>
  C1 (as amended). A breaker with threshold \<open>T\<close>, \<open>1 \<le> T < 2^63 - 1\<close>, starts \<open>Closed\<close> with no
  failures and receives \<open>T\<close> failing \<^verbatim>\<open>Execute\<close> calls in a row. It is \<open>Closed\<close> after fewer
  than \<open>T\<close> of them and \<open>Open\<close> after all \<open>T\<close>. From then on a call made before the timeout has
  elapsed since the last recorded failure returns \<open>CircuitOpen\<close>, leaves the breaker as it is and
  does not invoke the operation (the invocation counter stays). A call made when the timeout
  has elapsed invokes the operation exactly once, in state \<open>HalfOpen\<close>, and returns its result:
  after a success the breaker is \<open>Closed\<close> with no failures, after a failure it is \<open>Open\<close>.
\<close>

theorem circuit_breaker_cycle:
  assumes thr: "1 \<le> failureThreshold cb0" "failureThreshold cb0 < 2 ^ 63 - 1"
    and init: "state cb0 = Closed" "failures cb0 = 0"
    and len: "int (length cs) = failureThreshold cb0"
    and fail: "\<forall>c\<in>set cs. failing_call c"
    and cb: "cb = after_calls now cb0 cs"
  shows "(\<forall>m < length cs. state (after_calls now cb0 (take m cs)) = Closed) \<and>
         state cb = Open \<and>
         (Since (now w) (lastFailureTime cb) < timeout cb \<longrightarrow>
            Execute (\<lambda>t. now (world t)) cb (observe (\<lambda>j. operation))
                \<lparr>calls = n, sleeps = ds, world = w\<rparr>
              = (Some CircuitOpen, cb, \<lparr>calls = n, sleeps = ds, world = w\<rparr>)) \<and>
         (\<not> Since (now w) (lastFailureTime cb) < timeout cb \<longrightarrow>
            (\<exists>err w1 cb'.
               operation w = (err, w1) \<and>
               Execute (\<lambda>t. now (world t)) cb (observe (\<lambda>j. operation))
                   \<lparr>calls = n, sleeps = ds, world = w\<rparr>
                 = (err, cb', \<lparr>calls = Suc n, sleeps = ds, world = w1\<rparr>) \<and>
               cb' = (case err of
                        None \<Rightarrow> recordSuccess (cb\<lparr>state := HalfOpen\<rparr>)
                      | Some e \<Rightarrow> recordFailure (now w1) (cb\<lparr>state := HalfOpen\<rparr>)) \<and>
               (err = None \<longrightarrow> state cb' = Closed \<and> failures cb' = 0) \<and>
               (err \<noteq> None \<longrightarrow> state cb' = Open)))"
proof (intro conjI allI impI)
  have T: "failureThreshold cb0 \<le> 2 ^ 63 - 1" using thr(2) by simp
  have ne: "cs \<noteq> []" using len thr(1) by auto
  from failing_calls_closed [OF init T fail, of now] len ne cb
  have f: "failures cb = failureThreshold cb0" and s: "state cb = Open"
    by simp_all
  have c: "failureThreshold cb = failureThreshold cb0"
    unfolding cb by (simp add: after_calls_config)
  show "state cb = Open" by (rule s)
  show "state (after_calls now cb0 (take m cs)) = Closed" if "m < length cs" for m
  proof -
    have "\<forall>c\<in>set (take m cs). failing_call c"
      using fail by (auto dest: in_set_takeD)
    moreover have "int (length (take m cs)) \<le> failureThreshold cb0"
      using len that by simp
    ultimately show ?thesis
      using failing_calls_closed [OF init T, of "take m cs" now] len that by simp
  qed
  show "Execute (\<lambda>t. now (world t)) cb (observe (\<lambda>j. operation)) \<lparr>calls = n, sleeps = ds, world = w\<rparr>
          = (Some CircuitOpen, cb, \<lparr>calls = n, sleeps = ds, world = w\<rparr>)"
    if "Since (now w) (lastFailureTime cb) < timeout cb"
    using s that by (intro Execute_rejects) simp_all
  show "\<exists>err w1 cb'.
          operation w = (err, w1) \<and>
          Execute (\<lambda>t. now (world t)) cb (observe (\<lambda>j. operation)) \<lparr>calls = n, sleeps = ds, world = w\<rparr>
            = (err, cb', \<lparr>calls = Suc n, sleeps = ds, world = w1\<rparr>) \<and>
          cb' = (case err of
                   None \<Rightarrow> recordSuccess (cb\<lparr>state := HalfOpen\<rparr>)
                 | Some e \<Rightarrow> recordFailure (now w1) (cb\<lparr>state := HalfOpen\<rparr>)) \<and>
          (err = None \<longrightarrow> state cb' = Closed \<and> failures cb' = 0) \<and>
          (err \<noteq> None \<longrightarrow> state cb' = Open)"
    if el: "\<not> Since (now w) (lastFailureTime cb) < timeout cb"
  proof -
    obtain err w1 where op: "operation w = (err, w1)" by (cases "operation w")
    let ?t = "\<lparr>calls = n, sleeps = ds, world = w\<rparr>"
    let ?t1 = "\<lparr>calls = Suc n, sleeps = ds, world = w1\<rparr>"
    let ?cb' = "case err of
                  None \<Rightarrow> recordSuccess (cb\<lparr>state := HalfOpen\<rparr>)
                | Some e \<Rightarrow> recordFailure (now w1) (cb\<lparr>state := HalfOpen\<rparr>)"
    have obs: "observe (\<lambda>j. operation) ?t = (err, ?t1)"
      using op by (simp add: observe_def)
    have "\<not> (state cb = Open \<and> Since (now (world ?t)) (lastFailureTime cb) < timeout cb)"
      using el by simp
    from Execute_runs [where now = "\<lambda>t. now (world t)" and cb = cb and w = ?t
          and operation = "observe (\<lambda>j. operation)", OF this obs] s
    have ex: "Execute (\<lambda>t. now (world t)) cb (observe (\<lambda>j. operation)) ?t = (err, ?cb', ?t1)"
      by (cases err) simp_all
    have w: "wrap_int (failures cb + 1) = failures cb + 1"
      using f thr by (intro wrap_int_id) simp_all
    have ok: "state ?cb' = Closed \<and> failures ?cb' = 0" if "err = None"
      using that by (simp add: recordSuccess_def)
    have ko: "state ?cb' = Open" if "err \<noteq> None"
      using that w f c by (cases err) (simp_all add: recordFailure_def Let_def)
    from op ex ok ko show ?thesis by blast
  qed
qed

theorem circuit_breaker_cycle_witness:
  "1 \<le> failureThreshold (NewCircuitBreaker 2 100000000) \<and>
   failureThreshold (NewCircuitBreaker 2 100000000) < 2 ^ 63 - 1 \<and>
   state (NewCircuitBreaker 2 100000000) = Closed \<and>
   failures (NewCircuitBreaker 2 100000000) = 0 \<and>
   state (after_calls (\<lambda>w. w) (NewCircuitBreaker 2 100000000)
            [ExecuteCall (\<lambda>w. (Some (OtherError ''error 1''), w)) 1000]) = Closed \<and>
   state (after_calls (\<lambda>w. w) (NewCircuitBreaker 2 100000000)
            [ExecuteCall (\<lambda>w. (Some (OtherError ''error 1''), w)) 1000,
             ExecuteCall (\<lambda>w. (Some (OtherError ''error 2''), w)) 2000]) = Open \<and>
   Execute (\<lambda>t. world t)
       (after_calls (\<lambda>w. w) (NewCircuitBreaker 2 100000000)
            [ExecuteCall (\<lambda>w. (Some (OtherError ''error 1''), w)) 1000,
             ExecuteCall (\<lambda>w. (Some (OtherError ''error 2''), w)) 2000])
       (observe (\<lambda>j w. (None, w))) \<lparr>calls = 2, sleeps = [], world = 50000000\<rparr>
     = (Some CircuitOpen,
        \<lparr>failureThreshold = 2, timeout = 100000000, state = Open, failures = 2, lastFailureTime = 2000\<rparr>,
        \<lparr>calls = 2, sleeps = [], world = 50000000\<rparr>) \<and>
   Execute (\<lambda>t. world t)
       (after_calls (\<lambda>w. w) (NewCircuitBreaker 2 100000000)
            [ExecuteCall (\<lambda>w. (Some (OtherError ''error 1''), w)) 1000,
             ExecuteCall (\<lambda>w. (Some (OtherError ''error 2''), w)) 2000])
       (observe (\<lambda>j w. (None, w))) \<lparr>calls = 2, sleeps = [], world = 150000000\<rparr>
     = (None,
        \<lparr>failureThreshold = 2, timeout = 100000000, state = Closed, failures = 0, lastFailureTime = 2000\<rparr>,
        \<lparr>calls = 3, sleeps = [], world = 150000000\<rparr>) \<and>
   Execute (\<lambda>t. world t)
       (after_calls (\<lambda>w. w) (NewCircuitBreaker 2 100000000)
            [ExecuteCall (\<lambda>w. (Some (OtherError ''error 1''), w)) 1000,
             ExecuteCall (\<lambda>w. (Some (OtherError ''error 2''), w)) 2000])
       (observe (\<lambda>j w. (Some (OtherError ''error 3''), w))) \<lparr>calls = 2, sleeps = [], world = 150000000\<rparr>
     = (Some (OtherError ''error 3''),
        \<lparr>failureThreshold = 2, timeout = 100000000, state = Open, failures = 3,
         lastFailureTime = 150000000\<rparr>,
        \<lparr>calls = 3, sleeps = [], world = 150000000\<rparr>)"
  using circuit_breaker_cycle [where ?cb0.0 = "NewCircuitBreaker 2 100000000" and now = "\<lambda>w. w"
          and cs = "[ExecuteCall (\<lambda>w. (Some (OtherError ''error 1''), w)) 1000,
                     ExecuteCall (\<lambda>w. (Some (OtherError ''error 2''), w)) 2000]"
          and cb = "\<lparr>failureThreshold = 2, timeout = 100000000, state = Open, failures = 2,
                      lastFailureTime = 2000\<rparr>"
          and w = 50000000 and operation = "\<lambda>w. (None, w)" and n = 2 and ds = "[]"]
        circuit_breaker_cycle [where ?cb0.0 = "NewCircuitBreaker 2 100000000" and now = "\<lambda>w. w"
          and cs = "[ExecuteCall (\<lambda>w. (Some (OtherError ''error 1''), w)) 1000,
                     ExecuteCall (\<lambda>w. (Some (OtherError ''error 2''), w)) 2000]"
          and cb = "\<lparr>failureThreshold = 2, timeout = 100000000, state = Open, failures = 2,
                      lastFailureTime = 2000\<rparr>"
          and w = 150000000 and operation = "\<lambda>w. (None, w)" and n = 2 and ds = "[]"]
        circuit_breaker_cycle [where ?cb0.0 = "NewCircuitBreaker 2 100000000" and now = "\<lambda>w. w"
          and cs = "[ExecuteCall (\<lambda>w. (Some (OtherError ''error 1''), w)) 1000,
                     ExecuteCall (\<lambda>w. (Some (OtherError ''error 2''), w)) 2000]"
          and cb = "\<lparr>failureThreshold = 2, timeout = 100000000, state = Open, failures = 2,
                      lastFailureTime = 2000\<rparr>"
          and w = 150000000 and operation = "\<lambda>w. (Some (OtherError ''error 3''), w)" and n = 2
          and ds = "[]"]
  by (simp add: NewCircuitBreaker_def after_calls_def Execute_def recordFailure_def recordSuccess_def
        wrap_int_def Since_def maxDuration_def minDuration_def observe_def Let_def)

text \<open>
  C1 as stated fails for a breaker with threshold 0: after as many failing calls as the
  threshold says, that is after none, the breaker is \<open>Closed\<close>, not \<open>Open\<close>.
\<close>

theorem zero_threshold_breaker_is_closed:
  "state (NewCircuitBreaker 0 60000000000) = Closed \<and>
   failures (NewCircuitBreaker 0 60000000000) = 0 \<and>
   int (length ([] :: Time cb_call list)) = failureThreshold (NewCircuitBreaker 0 60000000000) \<and>
   state (after_calls (\<lambda>w. w) (NewCircuitBreaker 0 60000000000) ([] :: Time cb_call list)) \<noteq> Open"
  by (simp add: NewCircuitBreaker_def after_calls_def)

lemma apply_call_open:
  assumes "state (apply_call now cb c) = Open"
  shows "(\<exists>operation w. c = ExecuteCall operation w \<and> state cb = Open \<and>
            Since (now w) (lastFailureTime cb) < timeout cb \<and> apply_call now cb c = cb) \<or>
         (\<exists>operation w. c = ExecuteCall operation w \<and> fst (operation w) \<noteq> None \<and>
            lastFailureTime (apply_call now cb c) = now (snd (operation w)) \<and>
            failureThreshold cb \<le> failures (apply_call now cb c))"
proof (cases c)
  case ResetCall
  with assms show ?thesis by (simp add: Reset_def)
next
  case (ExecuteCall operation w)
  obtain err w1 where op: "operation w = (err, w1)" by (cases "operation w")
  show ?thesis
  proof (cases "state cb = Open \<and> Since (now w) (lastFailureTime cb) < timeout cb")
    case True
    then show ?thesis using ExecuteCall by (simp add: Execute_rejects)
  next
    case False
    note run = Execute_runs [where now = now and cb = cb and w = w and operation = operation,
        OF False op]
    show ?thesis
    proof (cases err)
      case None
      with assms ExecuteCall run show ?thesis
        by (simp add: recordSuccess_def split: if_splits)
    next
      case (Some e)
      with assms ExecuteCall run op show ?thesis
        by (simp add: recordFailure_def Let_def split: if_splits)
    qed
  qed
qed

text \<open>
  C9 (as amended). When a breaker made with threshold \<open>T\<close> is \<open>Open\<close> after a sequence of
  \<^verbatim>\<open>Execute\<close> and \<^verbatim>\<open>Reset\<close> calls, its failure count is at least \<open>T\<close>; it has been since a
  failing \<^verbatim>\<open>Execute\<close> call of the sequence, which recorded the failure time the breaker holds,
  and every call after that one was an \<^verbatim>\<open>Execute\<close> call that found the timeout not yet
  elapsed and left the breaker as it was.
\<close>

theorem open_breaker_invariant:
  assumes "cb = after_calls now (NewCircuitBreaker T tmo) cs" and "state cb = Open"
  shows "T \<le> failures cb \<and>
         (\<exists>cs1 operation w cs2.
            cs = cs1 @ ExecuteCall operation w # cs2 \<and>
            fst (operation w) \<noteq> None \<and>
            after_calls now (NewCircuitBreaker T tmo) (cs1 @ [ExecuteCall operation w]) = cb \<and>
            lastFailureTime cb = now (snd (operation w)) \<and>
            (\<forall>c\<in>set cs2. \<exists>operation' w'.
               c = ExecuteCall operation' w' \<and> Since (now w') (lastFailureTime cb) < timeout cb))"
  using assms
proof (induction cs arbitrary: cb rule: rev_induct)
  case Nil
  then show ?case by (simp add: after_calls_def NewCircuitBreaker_def)
next
  case (snoc c cs)
  let ?new = "NewCircuitBreaker T tmo"
  let ?p = "after_calls now ?new cs"
  have cb: "cb = apply_call now ?p c"
    using snoc.prems(1) by (simp add: after_calls_snoc)
  have thr: "failureThreshold ?p = T"
    by (simp add: after_calls_config) (simp add: NewCircuitBreaker_def)
  from apply_call_open [of now ?p c] snoc.prems(2) cb
  consider (rejected) operation w where "c = ExecuteCall operation w" "state ?p = Open"
      "Since (now w) (lastFailureTime ?p) < timeout ?p" "cb = ?p"
    | (failed) operation w where "c = ExecuteCall operation w" "fst (operation w) \<noteq> None"
      "lastFailureTime cb = now (snd (operation w))" "failureThreshold ?p \<le> failures cb"
    by auto
  then show ?case
  proof cases
    case rejected
    from snoc.IH [OF refl rejected(2)] obtain cs1 op0 w0 cs2 where
      T: "T \<le> failures ?p" and
      split: "cs = cs1 @ ExecuteCall op0 w0 # cs2" and
      f: "fst (op0 w0) \<noteq> None" and
      a: "after_calls now ?new (cs1 @ [ExecuteCall op0 w0]) = ?p" and
      l: "lastFailureTime ?p = now (snd (op0 w0))" and
      r: "\<forall>c\<in>set cs2. \<exists>operation' w'.
            c = ExecuteCall operation' w' \<and> Since (now w') (lastFailureTime ?p) < timeout ?p"
      by blast
    have "cs @ [c] = cs1 @ ExecuteCall op0 w0 # (cs2 @ [c])"
      using split by simp
    moreover have "\<forall>c'\<in>set (cs2 @ [c]). \<exists>operation' w'.
            c' = ExecuteCall operation' w' \<and> Since (now w') (lastFailureTime cb) < timeout cb"
      using r rejected by auto
    ultimately show ?thesis
      using T f a l rejected(4) by blast
  next
    case failed
    have "after_calls now ?new (cs @ [ExecuteCall operation w]) = cb"
      using snoc.prems(1) failed(1) by simp
    with failed thr show ?thesis
      by (intro conjI exI [of _ cs] exI [of _ operation] exI [of _ w] exI [of _ "[]"]) simp_all
  qed
qed

theorem open_breaker_invariant_witness:
  "state (after_calls (\<lambda>w. w) (NewCircuitBreaker 2 100000000)
            [ExecuteCall (\<lambda>w. (Some (OtherError ''error 1''), w)) 1000,
             ExecuteCall (\<lambda>w. (Some (OtherError ''error 2''), w)) 2000,
             ExecuteCall (\<lambda>w. (None, w)) 50000000]) = Open \<and>
   2 \<le> failures (after_calls (\<lambda>w. w) (NewCircuitBreaker 2 100000000)
            [ExecuteCall (\<lambda>w. (Some (OtherError ''error 1''), w)) 1000,
             ExecuteCall (\<lambda>w. (Some (OtherError ''error 2''), w)) 2000,
             ExecuteCall (\<lambda>w. (None, w)) 50000000])"
  using open_breaker_invariant [where now = "\<lambda>w. w" and T = 2 and tmo = 100000000
          and cs = "[ExecuteCall (\<lambda>w. (Some (OtherError ''error 1''), w)) 1000,
                     ExecuteCall (\<lambda>w. (Some (OtherError ''error 2''), w)) 2000,
                     ExecuteCall (\<lambda>w. (None, w)) 50000000]", OF refl]
  by (simp add: NewCircuitBreaker_def after_calls_def Execute_def recordFailure_def recordSuccess_def
        wrap_int_def Since_def maxDuration_def minDuration_def Let_def)

text \<open>
  C9 as stated fails: in the run of the breaker's own test (threshold 2, timeout 100ms, two
  failing calls) the breaker is \<open>Open\<close> with the last failure recorded at 2000ns; it still is
  when the clock reads 150ms, although the timeout has elapsed by then, as the next
  \<^verbatim>\<open>Execute\<close> call finds: it runs its operation.
\<close>

theorem open_breaker_outlives_timeout:
  "after_calls (\<lambda>w. w) (NewCircuitBreaker 2 100000000)
     [ExecuteCall (\<lambda>w. (Some (OtherError ''error 1''), w)) 1000,
      ExecuteCall (\<lambda>w. (Some (OtherError ''error 2''), w)) 2000]
     = \<lparr>failureThreshold = 2, timeout = 100000000, state = Open, failures = 2, lastFailureTime = 2000\<rparr> \<and>
   GetState \<lparr>failureThreshold = 2, timeout = 100000000, state = Open, failures = 2,
             lastFailureTime = 2000\<rparr> = Open \<and>
   \<not> Since 150000000 2000 < 100000000 \<and>
   Execute (\<lambda>t. world t)
       \<lparr>failureThreshold = 2, timeout = 100000000, state = Open, failures = 2, lastFailureTime = 2000\<rparr>
       (observe (\<lambda>j w. (None, w))) \<lparr>calls = 0, sleeps = [], world = 150000000\<rparr>
     = (None,
        \<lparr>failureThreshold = 2, timeout = 100000000, state = Closed, failures = 0, lastFailureTime = 2000\<rparr>,
        \<lparr>calls = 1, sleeps = [], world = 150000000\<rparr>)"
  by (simp add: NewCircuitBreaker_def after_calls_def Execute_def recordFailure_def recordSuccess_def
        wrap_int_def Since_def maxDuration_def minDuration_def observe_def GetState_def Let_def)

subsection \<open>The worker pool\<close>

lemma processEvent_closed_breaker:
  assumes "state (circuitBreaker wp) \<noteq> Open" "1 \<le> MaxAttempts (retryConfig wp)"
  shows "processEvent now sleep wp event workerID c =
           (sleep 10000000 c,
            wp\<lparr>circuitBreaker := recordSuccess (circuitBreaker wp),
               repository := Update (repository wp) (ProductID event) (ProductEvent.Price event)
                               (ProductEvent.Stock event)\<rparr>)"
  using assms
  by (simp add: processEvent_def ExecuteWithRetryAndCallback_def Execute_def Let_def
        ExecuteWithRetryAndCallback_loop.simps [where attempt = 1])

text \<open>
  C8. A queue of capacity 10 holds the one event enqueued; the pool is the one a new service
  builds (one worker, a breaker with threshold 5 and timeout 60s, the default retry
  configuration) over an empty repository. The worker takes the event, processes it and
  parks in \<^verbatim>\<open>Dequeue\<close>; the repository then holds product \<open>p1\<close> with price 10 and stock 5.
\<close>

theorem worker_stores_enqueued_event:
  "\<exists>q0 q1 c1 wp1.
     NewInMemoryEventQueue 10 = Inr q0 \<and>
     Enqueue q0 \<lparr>ProductID = ''p1'', ProductEvent.Price = 10, ProductEvent.Stock = 5\<rparr> = Inr (None, q1) \<and>
     worker now sleep 0
       (c, NewWorkerPool 1 q1 NewInMemoryProductRepository (NewCircuitBreaker 5 60000000000)
             DefaultRetryConfig)
       = (WaitingInDequeue, c1, wp1) \<and>
     InMemoryEventQueue.events (queue wp1) = \<lparr>chan_buf = [], chan_cap = 10, chan_closed = False\<rparr> \<and>
     Get (repository wp1) ''p1'' = Some \<lparr>ID = ''p1'', Product.Price = 10, Product.Stock = 5\<rparr>"
proof -
  let ?e = "\<lparr>ProductID = ''p1'', ProductEvent.Price = 10, ProductEvent.Stock = 5\<rparr>"
  let ?q0 = "\<lparr>InMemoryEventQueue.events = \<lparr>chan_buf = [], chan_cap = 10, chan_closed = False\<rparr>\<rparr>"
  let ?q1 = "\<lparr>InMemoryEventQueue.events = \<lparr>chan_buf = [?e], chan_cap = 10, chan_closed = False\<rparr>\<rparr>"
  let ?wp = "NewWorkerPool 1 ?q1 NewInMemoryProductRepository (NewCircuitBreaker 5 60000000000)
               DefaultRetryConfig"
  let ?wp1 = "?wp\<lparr>queue := ?q0,
                   circuitBreaker := recordSuccess (NewCircuitBreaker 5 60000000000),
                   repository := Update NewInMemoryProductRepository ''p1'' 10 5\<rparr>"
  have new: "NewInMemoryEventQueue 10 = Inr ?q0"
    by (simp add: NewInMemoryEventQueue_def make_chan_def)
  have enq: "Enqueue ?q0 ?e = Inr (None, ?q1)"
    by (simp add: Enqueue_def select_send_def)
  have deq: "Dequeue ?q1 = Some ((?e, True), ?q0)"
    by (simp add: Dequeue_def chan_recv_def)
  have empty: "Dequeue ?q0 = None"
    by (simp add: Dequeue_def chan_recv_def)
  have proc: "processEvent now sleep (?wp\<lparr>queue := ?q0\<rparr>) ?e 0 c = (sleep 10000000 c, ?wp1)"
    by (subst processEvent_closed_breaker)
       (simp_all add: NewWorkerPool_def NewCircuitBreaker_def DefaultRetryConfig_def)
  have park: "worker now sleep 0 (sleep 10000000 c, ?wp1) = (WaitingInDequeue, sleep 10000000 c, ?wp1)"
    by (subst worker.simps) (simp add: NewWorkerPool_def empty)
  have "worker now sleep 0 (c, ?wp) = worker now sleep 0 (processEvent now sleep (?wp\<lparr>queue := ?q0\<rparr>) ?e 0 c)"
    by (subst worker.simps) (simp add: NewWorkerPool_def deq)
  with proc park have run: "worker now sleep 0 (c, ?wp) = (WaitingInDequeue, sleep 10000000 c, ?wp1)"
    by simp
  have get: "Get (repository ?wp1) ''p1'' = Some \<lparr>ID = ''p1'', Product.Price = 10, Product.Stock = 5\<rparr>"
    by (simp add: Get_def Update_def)
  have q: "InMemoryEventQueue.events (queue ?wp1) = \<lparr>chan_buf = [], chan_cap = 10, chan_closed = False\<rparr>"
    by simp
  from new enq run get q show ?thesis by blast
qed

end
